theory Spec2Isabelle
  imports Main "HOL-Library.Sublist" "HOL-Library.Multiset"
begin

section \<open>JavaScript values\<close>

text \<open>
  The handlers of \<^verbatim>\<open>supabase/functions/server/index.tsx\<close> receive request bodies through
  \<^verbatim>\<open>await c.req.json()\<close> and never check the type of a field: a field may hold any JSON
  value, or be absent (\<^verbatim>\<open>undefined\<close> after destructuring). A string is a list of code
  units; the handlers only test strings for emptiness, cut them with \<^verbatim>\<open>substring\<close> and
  concatenate them. Numbers are only tested for truthiness, so integers stand for them.
  An object is the list of its own properties in insertion order, each name once.
\<close>

datatype jsval =
    JUndefined
  | JNull
  | JBool bool
  | JNum int
  | JStr string
  | JArr "jsval list"
  | JObj "(string \<times> jsval) list"

type_synonym jsobj = "(string \<times> jsval) list"

text \<open>\<^verbatim>\<open>!v\<close> is \<open>\<not> truthy v\<close>: the falsy JSON values are undefined, null, false, 0 and "".\<close>

fun truthy :: "jsval \<Rightarrow> bool" where
  "truthy JUndefined = False"
| "truthy JNull = False"
| "truthy (JBool b) = b"
| "truthy (JNum n) = (n \<noteq> 0)"
| "truthy (JStr s) = (s \<noteq> [])"
| "truthy (JArr xs) = True"
| "truthy (JObj kvs) = True"

text \<open>\<^verbatim>\<open>a || b\<close>\<close>

definition js_or :: "jsval \<Rightarrow> jsval \<Rightarrow> jsval" where
  "js_or a b = (if truthy a then a else b)"

text \<open>\<^verbatim>\<open>a ?? b\<close>: only undefined and null fall through to \<open>b\<close>.\<close>

fun nullish :: "jsval \<Rightarrow> bool" where
  "nullish JUndefined = True"
| "nullish JNull = True"
| "nullish v = False"

definition js_coalesce :: "jsval \<Rightarrow> jsval \<Rightarrow> jsval" where
  "js_coalesce a b = (if nullish a then b else a)"

text \<open>Property read \<^verbatim>\<open>o.k\<close> on an object: an absent property reads as undefined.\<close>

definition obj_get :: "jsobj \<Rightarrow> string \<Rightarrow> jsval" where
  "obj_get ob k = (case map_of ob k of None \<Rightarrow> JUndefined | Some v \<Rightarrow> v)"

text \<open>
  Property write: an existing property keeps its place and takes the new value, a new
  property goes to the end. An object literal \<^verbatim>\<open>{...e, k1: v1, k2: v2}\<close> is the spread
  object \<open>e\<close> with the listed properties written in order.
\<close>

fun obj_set :: "string \<Rightarrow> jsval \<Rightarrow> jsobj \<Rightarrow> jsobj" where
  "obj_set k v [] = [(k, v)]"
| "obj_set k v (p # ps) = (if fst p = k then (k, v) # ps else p # obj_set k v ps)"

definition obj_assign :: "jsobj \<Rightarrow> jsobj \<Rightarrow> jsobj" where
  "obj_assign e kvs = foldl (\<lambda>ob (k, v). obj_set k v ob) e kvs"

text \<open>
  Destructuring \<^verbatim>\<open>const { title, ... } = await c.req.json()\<close>: a body that is null throws a
  TypeError; on any other value the names are read as properties. None of the names the
  handlers read (title, content, excerpt, imageUrl, videoUrl, audioUrl, name) is a property
  of a JSON string, number, boolean or array, so they read as undefined there.
\<close>

fun destructurable :: "jsval \<Rightarrow> bool" where
  "destructurable JUndefined = False"
| "destructurable JNull = False"
| "destructurable v = True"

fun js_get :: "jsval \<Rightarrow> string \<Rightarrow> jsval" where
  "js_get (JObj kvs) k = obj_get kvs k"
| "js_get v k = JUndefined"

text \<open>\<^verbatim>\<open>s.substring(0, n)\<close> on a string, for \<open>n \<ge> 0\<close>.\<close>

definition substring0 :: "string \<Rightarrow> nat \<Rightarrow> string" where
  "substring0 s n = take n s"

text \<open>
  \<^verbatim>\<open>h.split(c)\<close> for a separator of one character: the pieces between the occurrences
  of the separator; never the empty array.
\<close>

fun split_on :: "char \<Rightarrow> string \<Rightarrow> string list" where
  "split_on c [] = [[]]"
| "split_on c (x # xs) =
     (if x = c then [] # split_on c xs
      else (case split_on c xs of w # ws \<Rightarrow> (x # w) # ws | [] \<Rightarrow> [[x]]))"

section \<open>Outcomes\<close>

text \<open>
  The status signals of the handlers: 400 (Validation-Failed), 401 (Unauthorized),
  404 (Not-Found) and 500, which every \<^verbatim>\<open>catch\<close> block answers to an exception.
\<close>

datatype error = ValidationFailed | Unauthorized | NotFound | ServerError

section \<open>The key-value store\<close>

text \<open>
  Modelled from the spec: the module \<^verbatim>\<open>./kv_store.tsx\<close> that index.tsx imports as \<open>kv\<close>
  is not among the sources. Its contract is section 4.1 of the specification: point get,
  set, delete (idempotent), deleteMany and a prefix scan that returns (key, value) pairs
  in an order of the store's own. The table has one row per key (the key is the primary
  key of \<^verbatim>\<open>kv_store_2b00e03f\<close>); the order of \<open>rows\<close> is the scan order. Every value the
  handlers write is an object, so rows hold objects. \<open>calls\<close> records the mutating calls
  issued so far, oldest first. Every call of the contract succeeds: a store that fails
  (an exception, which the handlers answer with 500) is outside the model.
\<close>

datatype kv_call = KvSet string jsobj | KvDel string | KvMDel "string list"

record kv =
  rows :: "(string \<times> jsobj) list"
  calls :: "kv_call list"

definition kv_empty :: kv where
  "kv_empty = \<lparr>rows = [], calls = []\<rparr>"

text \<open>Modelled from the spec: \<open>get(key) -> value | absent\<close>.\<close>

definition kv_get :: "kv \<Rightarrow> string \<Rightarrow> jsobj option" where
  "kv_get s k = map_of (rows s) k"

text \<open>Modelled from the spec: the row update behind \<open>set\<close>; a key has one row.\<close>

fun upsert :: "string \<Rightarrow> jsobj \<Rightarrow> (string \<times> jsobj) list \<Rightarrow> (string \<times> jsobj) list" where
  "upsert k v [] = [(k, v)]"
| "upsert k v (r # rs) = (if fst r = k then (k, v) # rs else r # upsert k v rs)"

text \<open>Modelled from the spec: \<open>set(key, value) -> success\<close>; the row of the key is replaced or added.\<close>

definition kv_set :: "kv \<Rightarrow> string \<Rightarrow> jsobj \<Rightarrow> kv" where
  "kv_set s k v = \<lparr>rows = upsert k v (rows s), calls = calls s @ [KvSet k v]\<rparr>"

text \<open>Modelled from the spec: \<open>delete(key) -> success\<close>, idempotent.\<close>

definition kv_del :: "kv \<Rightarrow> string \<Rightarrow> kv" where
  "kv_del s k = \<lparr>rows = filter (\<lambda>r. fst r \<noteq> k) (rows s), calls = calls s @ [KvDel k]\<rparr>"

text \<open>Modelled from the spec: \<open>deleteMany(keys: sequence) -> success\<close>.\<close>

definition kv_mdel :: "kv \<Rightarrow> string list \<Rightarrow> kv" where
  "kv_mdel s ks = \<lparr>rows = filter (\<lambda>r. fst r \<notin> set ks) (rows s), calls = calls s @ [KvMDel ks]\<rparr>"

text \<open>
  Modelled from the spec: \<open>scanByPrefix(prefix) -> sequence of (key, value) pairs\<close>, all
  pairs whose key starts with the given string, in scan order.
\<close>

definition kv_getByPrefix :: "kv \<Rightarrow> string \<Rightarrow> (string \<times> jsobj) list" where
  "kv_getByPrefix s p = filter (\<lambda>r. prefix p (fst r)) (rows s)"

section \<open>External collaborators\<close>

text \<open>
  What the handlers use and the repository does not define is a parameter:
  \<^item> \<open>getUser\<close>: the identity provider, \<^verbatim>\<open>supabase.auth.getUser(token)\<close>; \<open>Some id\<close> is an
    answer without error whose user has that id, \<open>None\<close> an error or no user;
  \<^item> \<open>toISOString\<close>: \<^verbatim>\<open>new Date().toISOString()\<close> at a clock reading in milliseconds;
  \<^item> \<open>getTime\<close>: \<^verbatim>\<open>new Date(v).getTime()\<close>, \<open>None\<close> for NaN.
\<close>

record platform =
  getUser :: "string \<Rightarrow> string option"
  toISOString :: "nat \<Rightarrow> string"
  getTime :: "jsval \<Rightarrow> int option"

text \<open>
  A request: the Authorization header, if any, and what \<^verbatim>\<open>c.req.json()\<close> yields
  (\<open>None\<close> when the body is not JSON and the call throws). Route parameters, the value
  of \<^verbatim>\<open>crypto.randomUUID()\<close> and the clock readings are arguments of the handlers.
\<close>

record request =
  authorization :: "string option"
  body :: "jsval option"

section \<open>Authorization gate\<close>

text \<open>
  \<^verbatim>\<open>verifyAuth\<close>: the token is the second piece of the header split at spaces; a missing
  header, a missing or empty token, a provider error and a user without id give null.
\<close>

definition verifyAuth :: "platform \<Rightarrow> request \<Rightarrow> string option" where
  "verifyAuth env req =
     (case authorization req of
        None \<Rightarrow> None
      | Some h \<Rightarrow>
          (case split_on (CHR '' '') h of
             x # accessToken # rest \<Rightarrow>
               (if accessToken = [] then None
                else (case getUser env accessToken of
                        None \<Rightarrow> None
                      | Some uid \<Rightarrow> if uid = [] then None else Some uid))
           | _ \<Rightarrow> None))"

section \<open>Sorting\<close>

text \<open>
  \<^verbatim>\<open>Array.prototype.sort(cmp)\<close> is stable; a comparator result that is NaN counts as 0.
  With a consistent comparator the result is the stable insertion sort below: an element
  stays in front of the later elements it does not compare greater than.
\<close>

definition not_after :: "int option \<Rightarrow> bool" where
  "not_after r = (case r of None \<Rightarrow> True | Some d \<Rightarrow> d \<le> 0)"

fun insert_by :: "('a \<Rightarrow> 'a \<Rightarrow> int option) \<Rightarrow> 'a \<Rightarrow> 'a list \<Rightarrow> 'a list" where
  "insert_by cmp x [] = [x]"
| "insert_by cmp x (y # ys) =
     (if not_after (cmp x y) then x # y # ys else y # insert_by cmp x ys)"

definition js_sort :: "('a \<Rightarrow> 'a \<Rightarrow> int option) \<Rightarrow> 'a list \<Rightarrow> 'a list" where
  "js_sort cmp xs = foldr (insert_by cmp) xs []"

text \<open>\<^verbatim>\<open>new Date(x.createdAt).getTime()\<close> and the difference of two such numbers.\<close>

definition createdAt_time :: "platform \<Rightarrow> jsobj \<Rightarrow> int option" where
  "createdAt_time env x = getTime env (obj_get x ''createdAt'')"

definition js_minus :: "int option \<Rightarrow> int option \<Rightarrow> int option" where
  "js_minus a b =
     (case a of None \<Rightarrow> None | Some x \<Rightarrow> (case b of None \<Rightarrow> None | Some y \<Rightarrow> Some (x - y)))"

text \<open>
  The comparator of the article listing,
  \<^verbatim>\<open>(a, b) => new Date(b.createdAt).getTime() - new Date(a.createdAt).getTime()\<close>,
  and the comparator of the comment listing, with \<open>a\<close> and \<open>b\<close> exchanged.
\<close>

definition newest_first :: "platform \<Rightarrow> jsobj \<Rightarrow> jsobj \<Rightarrow> int option" where
  "newest_first env a b = js_minus (createdAt_time env b) (createdAt_time env a)"

definition oldest_first :: "platform \<Rightarrow> jsobj \<Rightarrow> jsobj \<Rightarrow> int option" where
  "oldest_first env a b = js_minus (createdAt_time env a) (createdAt_time env b)"

section \<open>Article routes\<close>

text \<open>\<^verbatim>\<open>GET /articles\<close>: newest first.\<close>

definition list_articles :: "platform \<Rightarrow> kv \<Rightarrow> jsobj list" where
  "list_articles env s =
     (let articles = kv_getByPrefix s ''article:''
      in js_sort (newest_first env) (map snd articles))"

text \<open>\<^verbatim>\<open>GET /articles/:id\<close>\<close>

definition get_article :: "kv \<Rightarrow> string \<Rightarrow> error + jsobj" where
  "get_article s id' = (case kv_get s (''article:'' @ id') of None \<Rightarrow> Inl NotFound | Some article \<Rightarrow> Inr article)"

text \<open>
  \<^verbatim>\<open>excerpt || content.substring(0, 150) + '...'\<close>: the right operand is evaluated only for a
  falsy excerpt; a content that is not a string has no \<^verbatim>\<open>substring\<close> and the call throws.
\<close>

definition derive_excerpt :: "jsval \<Rightarrow> jsval \<Rightarrow> jsval option" where
  "derive_excerpt excerpt content =
     (if truthy excerpt then Some excerpt
      else (case content of JStr c \<Rightarrow> Some (JStr (substring0 c 150 @ ''...'')) | _ \<Rightarrow> None))"

text \<open>
  \<^verbatim>\<open>POST /articles\<close>. \<open>uuid\<close> is the value of \<^verbatim>\<open>crypto.randomUUID()\<close>; \<open>t1\<close> and \<open>t2\<close> are the
  two clock readings taken for createdAt and updatedAt.
\<close>

definition create_article ::
  "platform \<Rightarrow> request \<Rightarrow> string \<Rightarrow> nat \<Rightarrow> nat \<Rightarrow> kv \<Rightarrow> (error + jsobj) \<times> kv" where
  "create_article env req uuid t1 t2 s =
     (case verifyAuth env req of
        None \<Rightarrow> (Inl Unauthorized, s)
      | Some userId \<Rightarrow>
          (case body req of
             None \<Rightarrow> (Inl ServerError, s)
           | Some b \<Rightarrow>
               if \<not> destructurable b then (Inl ServerError, s)
               else
                 let title = js_get b ''title''; content = js_get b ''content'';
                     excerpt = js_get b ''excerpt''; imageUrl = js_get b ''imageUrl'';
                     videoUrl = js_get b ''videoUrl''; audioUrl = js_get b ''audioUrl''
                 in
                   if \<not> truthy title \<or> \<not> truthy content then (Inl ValidationFailed, s)
                   else
                     (case derive_excerpt excerpt content of
                        None \<Rightarrow> (Inl ServerError, s)
                      | Some ex \<Rightarrow>
                          let article =
                                [(''id'', JStr uuid),
                                 (''title'', title),
                                 (''content'', content),
                                 (''excerpt'', ex),
                                 (''imageUrl'', js_or imageUrl JNull),
                                 (''videoUrl'', js_or videoUrl JNull),
                                 (''audioUrl'', js_or audioUrl JNull),
                                 (''authorId'', JStr userId),
                                 (''createdAt'', JStr (toISOString env t1)),
                                 (''updatedAt'', JStr (toISOString env t2))]
                          in (Inr article, kv_set s (''article:'' @ uuid) article))))"

text \<open>\<^verbatim>\<open>PUT /articles/:id\<close>. \<open>now\<close> is the clock reading taken for updatedAt.\<close>

definition update_article ::
  "platform \<Rightarrow> request \<Rightarrow> string \<Rightarrow> nat \<Rightarrow> kv \<Rightarrow> (error + jsobj) \<times> kv" where
  "update_article env req id' now s =
     (case verifyAuth env req of
        None \<Rightarrow> (Inl Unauthorized, s)
      | Some userId \<Rightarrow>
          (case kv_get s (''article:'' @ id') of
             None \<Rightarrow> (Inl NotFound, s)
           | Some existingArticle \<Rightarrow>
               (case body req of
                  None \<Rightarrow> (Inl ServerError, s)
                | Some b \<Rightarrow>
                    if \<not> destructurable b then (Inl ServerError, s)
                    else
                      let title = js_get b ''title''; content = js_get b ''content'';
                          excerpt = js_get b ''excerpt''; imageUrl = js_get b ''imageUrl'';
                          videoUrl = js_get b ''videoUrl''; audioUrl = js_get b ''audioUrl'';
                          updatedArticle = obj_assign existingArticle
                            [(''title'', js_coalesce title (obj_get existingArticle ''title'')),
                             (''content'', js_coalesce content (obj_get existingArticle ''content'')),
                             (''excerpt'', js_coalesce excerpt (obj_get existingArticle ''excerpt'')),
                             (''imageUrl'', if imageUrl \<noteq> JUndefined then imageUrl
                                            else obj_get existingArticle ''imageUrl''),
                             (''videoUrl'', if videoUrl \<noteq> JUndefined then videoUrl
                                            else obj_get existingArticle ''videoUrl''),
                             (''audioUrl'', if audioUrl \<noteq> JUndefined then audioUrl
                                            else obj_get existingArticle ''audioUrl''),
                             (''updatedAt'', JStr (toISOString env now))]
                      in (Inr updatedArticle, kv_set s (''article:'' @ id') updatedArticle))))"

text \<open>\<^verbatim>\<open>DELETE /articles/:id\<close>: the article row, then the rows of its comments.\<close>

definition delete_article :: "platform \<Rightarrow> request \<Rightarrow> string \<Rightarrow> kv \<Rightarrow> (error + unit) \<times> kv" where
  "delete_article env req id' s =
     (case verifyAuth env req of
        None \<Rightarrow> (Inl Unauthorized, s)
      | Some userId \<Rightarrow>
          (case kv_get s (''article:'' @ id') of
             None \<Rightarrow> (Inl NotFound, s)
           | Some article \<Rightarrow>
               let s1 = kv_del s (''article:'' @ id');
                   comments = kv_getByPrefix s1 (''comment:'' @ id' @ '':'');
                   commentKeys = map fst comments
               in (Inr (), if length commentKeys > 0 then kv_mdel s1 commentKeys else s1)))"

section \<open>Comment routes\<close>

text \<open>\<^verbatim>\<open>GET /comments/:articleId\<close>: oldest first.\<close>

definition list_comments :: "platform \<Rightarrow> string \<Rightarrow> kv \<Rightarrow> jsobj list" where
  "list_comments env articleId s =
     (let comments = kv_getByPrefix s (''comment:'' @ articleId @ '':'')
      in js_sort (oldest_first env) (map snd comments))"

text \<open>\<^verbatim>\<open>POST /comments/:articleId\<close>: no call of verifyAuth; the body is checked before the article.\<close>

definition create_comment ::
  "platform \<Rightarrow> request \<Rightarrow> string \<Rightarrow> string \<Rightarrow> nat \<Rightarrow> kv \<Rightarrow> (error + jsobj) \<times> kv" where
  "create_comment env req articleId commentId now s =
     (case body req of
        None \<Rightarrow> (Inl ServerError, s)
      | Some b \<Rightarrow>
          if \<not> destructurable b then (Inl ServerError, s)
          else
            let name = js_get b ''name''; content = js_get b ''content''
            in
              if \<not> truthy name \<or> \<not> truthy content then (Inl ValidationFailed, s)
              else
                (case kv_get s (''article:'' @ articleId) of
                   None \<Rightarrow> (Inl NotFound, s)
                 | Some article \<Rightarrow>
                     let comment =
                           [(''id'', JStr commentId),
                            (''articleId'', JStr articleId),
                            (''name'', name),
                            (''content'', content),
                            (''createdAt'', JStr (toISOString env now))]
                     in (Inr comment, kv_set s (''comment:'' @ articleId @ '':'' @ commentId) comment)))"

text \<open>\<^verbatim>\<open>DELETE /comments/:articleId/:commentId\<close>\<close>

definition delete_comment ::
  "platform \<Rightarrow> request \<Rightarrow> string \<Rightarrow> string \<Rightarrow> kv \<Rightarrow> (error + unit) \<times> kv" where
  "delete_comment env req articleId commentId s =
     (case verifyAuth env req of
        None \<Rightarrow> (Inl Unauthorized, s)
      | Some userId \<Rightarrow>
          (case kv_get s (''comment:'' @ articleId @ '':'' @ commentId) of
             None \<Rightarrow> (Inl NotFound, s)
           | Some comment \<Rightarrow> (Inr (), kv_del s (''comment:'' @ articleId @ '':'' @ commentId))))"

section \<open>Sequences of requests\<close>

text \<open>
  The store starts empty and changes only through the five mutating routes. A history is
  the list of the mutating requests served so far, each with the values the handler drew
  from \<^verbatim>\<open>crypto.randomUUID()\<close> and the clock.
\<close>

datatype op =
    CreateArticle request string nat nat
  | UpdateArticle request string nat
  | DeleteArticle request string
  | CreateComment request string string nat
  | DeleteComment request string string

fun step :: "platform \<Rightarrow> kv \<Rightarrow> op \<Rightarrow> kv" where
  "step env s (CreateArticle req uuid t1 t2) = snd (create_article env req uuid t1 t2 s)"
| "step env s (UpdateArticle req id' now) = snd (update_article env req id' now s)"
| "step env s (DeleteArticle req id') = snd (delete_article env req id' s)"
| "step env s (CreateComment req articleId uuid now) = snd (create_comment env req articleId uuid now s)"
| "step env s (DeleteComment req articleId commentId) = snd (delete_comment env req articleId commentId s)"

definition run :: "platform \<Rightarrow> op list \<Rightarrow> kv" where
  "run env ops = foldl (step env) kv_empty ops"

text \<open>
  \<^verbatim>\<open>crypto.randomUUID()\<close> returns 36 characters, each a lowercase hexadecimal digit or a
  hyphen. \<open>drawn_uuids\<close> says that the identifiers drawn in a history have this form.
\<close>

definition is_uuid :: "string \<Rightarrow> bool" where
  "is_uuid u = (length u = 36 \<and> list_all (\<lambda>c. c \<in> set ''0123456789abcdef-'') u)"

fun drawn_uuid :: "op \<Rightarrow> bool" where
  "drawn_uuid (CreateArticle req uuid t1 t2) = is_uuid uuid"
| "drawn_uuid (CreateComment req articleId uuid now) = is_uuid uuid"
| "drawn_uuid x = True"

definition drawn_uuids :: "op list \<Rightarrow> bool" where
  "drawn_uuids ops = list_all drawn_uuid ops"

section \<open>Sample data\<close>

text \<open>
  A small platform and store on which the handlers are evaluated. The identity provider
  knows one token. The rendering of an instant is a stand-in that keeps the examples
  short: \<open>t\<close> milliseconds are written as \<open>t\<close> strokes, and \<open>getTime\<close> reads them back.
\<close>

definition demo_platform :: platform where
  "demo_platform =
     \<lparr>getUser = (\<lambda>tok. if tok = ''tok-admin'' then Some ''user-1'' else None),
      toISOString = (\<lambda>t. replicate t CHR ''I''),
      getTime = (\<lambda>v. case v of
                        JStr s \<Rightarrow> if s \<noteq> [] \<and> list_all (\<lambda>c. c = CHR ''I'') s
                                  then Some (int (length s)) else None
                      | _ \<Rightarrow> None)\<rparr>"

definition admin_request :: "jsval \<Rightarrow> request" where
  "admin_request b = \<lparr>authorization = Some ''Bearer tok-admin'', body = Some b\<rparr>"

definition anonymous_request :: "jsval \<Rightarrow> request" where
  "anonymous_request b = \<lparr>authorization = None, body = Some b\<rparr>"

definition aid1 :: string where
  "aid1 = ''0a000000-0000-4000-8000-000000000001''"

definition aid2 :: string where
  "aid2 = ''0a000000-0000-4000-8000-000000000002''"

definition cid1 :: string where
  "cid1 = ''0c000000-0000-4000-8000-000000000001''"

definition cid2 :: string where
  "cid2 = ''0c000000-0000-4000-8000-000000000002''"

definition demo_article1 :: jsobj where
  "demo_article1 =
     [(''id'', JStr aid1), (''title'', JStr ''Hello''), (''content'', JStr ''hello world''),
      (''excerpt'', JStr ''hello world...''), (''imageUrl'', JStr ''http://img/1.png''),
      (''videoUrl'', JStr ''http://video/1''), (''audioUrl'', JStr ''http://audio/1.mp3''),
      (''authorId'', JStr ''user-1''),
      (''createdAt'', JStr ''III''), (''updatedAt'', JStr ''III'')]"

definition demo_article2 :: jsobj where
  "demo_article2 =
     [(''id'', JStr aid2), (''title'', JStr ''Second''), (''content'', JStr ''more text''),
      (''excerpt'', JStr ''more text...''), (''imageUrl'', JNull),
      (''videoUrl'', JNull), (''audioUrl'', JNull), (''authorId'', JStr ''user-1''),
      (''createdAt'', JStr ''IIIII''), (''updatedAt'', JStr ''IIIII'')]"

definition demo_comment1 :: jsobj where
  "demo_comment1 =
     [(''id'', JStr cid1), (''articleId'', JStr aid1), (''name'', JStr ''Ann''),
      (''content'', JStr ''First''), (''createdAt'', JStr ''IIII'')]"

definition demo_comment2 :: jsobj where
  "demo_comment2 =
     [(''id'', JStr cid2), (''articleId'', JStr aid1), (''name'', JStr ''Bob''),
      (''content'', JStr ''Second''), (''createdAt'', JStr ''IIIIII'')]"

text \<open>Two articles and two comments on the first one; the scan order is not the order of creation.\<close>

definition demo_store :: kv where
  "demo_store =
     \<lparr>rows = [(''article:'' @ aid1, demo_article1),
              (''comment:'' @ aid1 @ '':'' @ cid2, demo_comment2),
              (''article:'' @ aid2, demo_article2),
              (''comment:'' @ aid1 @ '':'' @ cid1, demo_comment1)],
      calls = []\<rparr>"

definition demo_comment_body :: jsval where
  "demo_comment_body = JObj [(''name'', JStr ''Ann''), (''content'', JStr ''First'')]"

definition long_article_body :: jsval where
  "long_article_body =
     JObj [(''title'', JStr ''Long''), (''content'', JStr (replicate 200 (CHR ''x'')))]"

definition title_only_body :: jsval where
  "title_only_body = JObj [(''title'', JStr ''Renamed'')]"

definition null_title_body :: jsval where
  "null_title_body = JObj [(''title'', JNull)]"

definition empty_title_body :: jsval where
  "empty_title_body = JObj [(''title'', JStr '''')]"

definition clear_media_body :: jsval where
  "clear_media_body = JObj [(''imageUrl'', JStr ''''), (''videoUrl'', JNull)]"

definition empty_body :: jsval where
  "empty_body = JObj []"

text \<open>The first article after an update that carries only a title, served at clock reading 3.\<close>

definition renamed_article1 :: jsobj where
  "renamed_article1 =
     [(''id'', JStr aid1), (''title'', JStr ''Renamed''), (''content'', JStr ''hello world''),
      (''excerpt'', JStr ''hello world...''), (''imageUrl'', JStr ''http://img/1.png''),
      (''videoUrl'', JStr ''http://video/1''), (''audioUrl'', JStr ''http://audio/1.mp3''),
      (''authorId'', JStr ''user-1''),
      (''createdAt'', JStr ''III''), (''updatedAt'', JStr ''III'')]"

text \<open>The first article after an update whose title is null, served at clock reading 9.\<close>

definition unrenamed_article1 :: jsobj where
  "unrenamed_article1 =
     [(''id'', JStr aid1), (''title'', JStr ''Hello''), (''content'', JStr ''hello world''),
      (''excerpt'', JStr ''hello world...''), (''imageUrl'', JStr ''http://img/1.png''),
      (''videoUrl'', JStr ''http://video/1''), (''audioUrl'', JStr ''http://audio/1.mp3''),
      (''authorId'', JStr ''user-1''),
      (''createdAt'', JStr ''III''), (''updatedAt'', JStr ''IIIIIIIII'')]"

text \<open>The first article after an update whose title is the empty string, served at clock reading 9.\<close>

definition untitled_article1 :: jsobj where
  "untitled_article1 =
     [(''id'', JStr aid1), (''title'', JStr ''''), (''content'', JStr ''hello world''),
      (''excerpt'', JStr ''hello world...''), (''imageUrl'', JStr ''http://img/1.png''),
      (''videoUrl'', JStr ''http://video/1''), (''audioUrl'', JStr ''http://audio/1.mp3''),
      (''authorId'', JStr ''user-1''),
      (''createdAt'', JStr ''III''), (''updatedAt'', JStr ''IIIIIIIII'')]"

text \<open>A history: the first article is created at the instant 3 and commented at the instant 4.\<close>

definition demo_history :: "op list" where
  "demo_history =
     [CreateArticle (admin_request long_article_body) aid1 3 3,
      CreateComment (anonymous_request demo_comment_body) aid1 cid1 4]"

text \<open>The store of the sample data with its rows in the opposite scan order.\<close>

definition demo_store_rev :: kv where
  "demo_store_rev = \<lparr>rows = rev (rows demo_store), calls = []\<rparr>"

section \<open>The key space\<close>

text \<open>
  The invariant of the rows: a key is \<open>article:<id>\<close> or \<open>comment:<articleId>:<id>\<close> with
  identifiers that contain no colon, and a comment row carries the two identifiers of its
  key in its fields.
\<close>

definition colon_free :: "string \<Rightarrow> bool" where
  "colon_free u = (CHR '':'' \<notin> set u)"

definition row_ok :: "string \<times> jsobj \<Rightarrow> bool" where
  "row_ok r =
     ((\<exists>u. fst r = ''article:'' @ u \<and> colon_free u)
      \<or> (\<exists>aid cid. fst r = ''comment:'' @ aid @ '':'' @ cid \<and> colon_free aid \<and> colon_free cid
            \<and> obj_get (snd r) ''articleId'' = JStr aid \<and> obj_get (snd r) ''id'' = JStr cid))"

definition store_inv :: "kv \<Rightarrow> bool" where
  "store_inv s = (\<forall>r \<in> set (rows s). row_ok r)"

text \<open>Every row carries a createdAt that \<^verbatim>\<open>new Date\<close> reads.\<close>

definition dated :: "platform \<Rightarrow> kv \<Rightarrow> bool" where
  "dated env s = (\<forall>r \<in> set (rows s). createdAt_time env (snd r) \<noteq> None)"

section \<open>Facts about the store and objects\<close>

lemma map_of_upsert: "map_of (upsert k v rs) k' = (if k' = k then Some v else map_of rs k')"
  by (induction rs) auto

lemma kv_get_kv_set: "kv_get (kv_set s k v) k' = (if k' = k then Some v else kv_get s k')"
  by (simp add: kv_get_def kv_set_def map_of_upsert)

lemma obj_get_obj_set: "obj_get (obj_set k v ob) k' = (if k' = k then v else obj_get ob k')"
  by (induction ob) (auto simp: obj_get_def)

lemma obj_get_Cons: "obj_get ((k, v) # ob) k' = (if k' = k then v else obj_get ob k')"
  by (simp add: obj_get_def)

lemma obj_get_Nil: "obj_get [] k = JUndefined"
  by (simp add: obj_get_def)

lemma verifyAuth_admin: "verifyAuth demo_platform (admin_request b) = Some ''user-1''"
  by (simp add: verifyAuth_def demo_platform_def admin_request_def)

lemma verifyAuth_anonymous: "verifyAuth demo_platform (anonymous_request b) = None"
  by (simp add: verifyAuth_def demo_platform_def anonymous_request_def)

lemma demo_store_article1: "kv_get demo_store (''article:'' @ aid1) = Some demo_article1"
  by (simp add: kv_get_def demo_store_def)

lemma update_article_succeeds:
  assumes "verifyAuth env req = Some userId"
      and "kv_get s (''article:'' @ id') = Some existing"
      and "body req = Some b"
      and "destructurable b"
  shows "update_article env req id' now s =
     (Inr (obj_assign existing
        [(''title'', js_coalesce (js_get b ''title'') (obj_get existing ''title'')),
         (''content'', js_coalesce (js_get b ''content'') (obj_get existing ''content'')),
         (''excerpt'', js_coalesce (js_get b ''excerpt'') (obj_get existing ''excerpt'')),
         (''imageUrl'', if js_get b ''imageUrl'' \<noteq> JUndefined then js_get b ''imageUrl''
                        else obj_get existing ''imageUrl''),
         (''videoUrl'', if js_get b ''videoUrl'' \<noteq> JUndefined then js_get b ''videoUrl''
                        else obj_get existing ''videoUrl''),
         (''audioUrl'', if js_get b ''audioUrl'' \<noteq> JUndefined then js_get b ''audioUrl''
                        else obj_get existing ''audioUrl''),
         (''updatedAt'', JStr (toISOString env now))]),
      kv_set s (''article:'' @ id') (obj_assign existing
        [(''title'', js_coalesce (js_get b ''title'') (obj_get existing ''title'')),
         (''content'', js_coalesce (js_get b ''content'') (obj_get existing ''content'')),
         (''excerpt'', js_coalesce (js_get b ''excerpt'') (obj_get existing ''excerpt'')),
         (''imageUrl'', if js_get b ''imageUrl'' \<noteq> JUndefined then js_get b ''imageUrl''
                        else obj_get existing ''imageUrl''),
         (''videoUrl'', if js_get b ''videoUrl'' \<noteq> JUndefined then js_get b ''videoUrl''
                        else obj_get existing ''videoUrl''),
         (''audioUrl'', if js_get b ''audioUrl'' \<noteq> JUndefined then js_get b ''audioUrl''
                        else obj_get existing ''audioUrl''),
         (''updatedAt'', JStr (toISOString env now))]))"
  using assms by (simp add: update_article_def Let_def)

lemma obj_get_obj_assign7:
  "obj_get (obj_assign e [(k1, v1), (k2, v2), (k3, v3), (k4, v4), (k5, v5), (k6, v6), (k7, v7)]) f =
     (if f = k7 then v7 else if f = k6 then v6 else if f = k5 then v5 else if f = k4 then v4
      else if f = k3 then v3 else if f = k2 then v2 else if f = k1 then v1 else obj_get e f)"
  by (simp add: obj_assign_def obj_get_obj_set)

lemma map_of_filter_key_None: "map_of (filter (\<lambda>r. fst r \<noteq> k \<and> Q r) rs) k = None"
  by (induction rs) auto

lemma js_sort_Nil: "js_sort cmp [] = []"
  by (simp add: js_sort_def)

section \<open>Facts about sorting\<close>

lemma insert_by_insort_key:
  assumes "\<And>y. y \<in> set ys \<Longrightarrow> not_after (cmp x y) = (f x \<le> f y)"
  shows "insert_by cmp x ys = insort_key f x ys"
  using assms by (induction ys) auto

lemma js_sort_sort_key:
  fixes f :: "'a \<Rightarrow> int"
  assumes "\<And>x y. x \<in> set xs \<Longrightarrow> y \<in> set xs \<Longrightarrow> not_after (cmp x y) = (f x \<le> f y)"
  shows "js_sort cmp xs = sort_key f xs"
  using assms
proof (induction xs)
  case Nil
  then show ?case by (simp add: js_sort_def)
next
  case (Cons x xs)
  have ih: "js_sort cmp xs = sort_key f xs"
    using Cons by simp
  have "js_sort cmp (x # xs) = insert_by cmp x (js_sort cmp xs)"
    by (simp add: js_sort_def)
  also have "\<dots> = insert_by cmp x (sort_key f xs)"
    by (simp add: ih)
  also have "\<dots> = insort_key f x (sort_key f xs)"
    using Cons.prems by (intro insert_by_insort_key) simp
  finally show ?case by (simp add: sort_key_def)
qed

lemma sorted_key_positions:
  fixes f :: "'a \<Rightarrow> int"
  assumes "sorted (map f zs)" and "i < length zs" and "j < length zs" and "f (zs ! j) < f (zs ! i)"
  shows "j < i"
proof (rule ccontr)
  assume "\<not> j < i"
  then have "i \<le> j" by simp
  with assms(1,3) have "map f zs ! i \<le> map f zs ! j"
    by (intro sorted_nth_mono) simp_all
  with assms(2-4) show False by simp
qed

lemma sort_key_same_keys:
  fixes f :: "'a \<Rightarrow> int"
  assumes "mset xs = mset ys"
  shows "map f (sort_key f xs) = map f (sort_key f ys)"
proof -
  have "mset (map f (sort_key f xs)) = mset (map f (sort_key f ys))"
    using assms by simp
  moreover have "sorted (map f (sort_key f xs))" by simp
  ultimately have "sort (map f (sort_key f ys)) = map f (sort_key f xs)"
    by (rule properties_for_sort)
  then show ?thesis by (simp add: sorted_sort_id)
qed

lemma scan_values_mset:
  assumes "mset (rows s2) = mset (rows s)"
  shows "mset (map snd (kv_getByPrefix s2 p)) = mset (map snd (kv_getByPrefix s p))"
  using assms by (simp add: kv_getByPrefix_def)

lemma newest_first_key:
  assumes "createdAt_time env a = Some ta" and "createdAt_time env b = Some tb"
  shows "not_after (newest_first env a b) = (- ta \<le> - tb)"
  using assms by (auto simp: newest_first_def js_minus_def not_after_def)

lemma oldest_first_key:
  assumes "createdAt_time env a = Some ta" and "createdAt_time env b = Some tb"
  shows "not_after (oldest_first env a b) = (ta \<le> tb)"
  using assms by (auto simp: oldest_first_def js_minus_def not_after_def)

lemma js_sort_newest_first:
  assumes "\<And>a. a \<in> set xs \<Longrightarrow> createdAt_time env a \<noteq> None"
  shows "js_sort (newest_first env) xs = sort_key (\<lambda>a. - the (createdAt_time env a)) xs"
proof (rule js_sort_sort_key)
  fix x y assume "x \<in> set xs" "y \<in> set xs"
  then obtain tx ty where "createdAt_time env x = Some tx" "createdAt_time env y = Some ty"
    using assms by blast
  then show "not_after (newest_first env x y)
      = (- the (createdAt_time env x) \<le> - the (createdAt_time env y))"
    by (simp add: newest_first_key)
qed

lemma js_sort_oldest_first:
  assumes "\<And>a. a \<in> set xs \<Longrightarrow> createdAt_time env a \<noteq> None"
  shows "js_sort (oldest_first env) xs = sort_key (\<lambda>a. the (createdAt_time env a)) xs"
proof (rule js_sort_sort_key)
  fix x y assume "x \<in> set xs" "y \<in> set xs"
  then obtain tx ty where "createdAt_time env x = Some tx" "createdAt_time env y = Some ty"
    using assms by blast
  then show "not_after (oldest_first env x y)
      = (the (createdAt_time env x) \<le> the (createdAt_time env y))"
    by (simp add: oldest_first_key)
qed

section \<open>Facts about the key space\<close>

lemma split_on_no_sep: "c \<notin> set u \<Longrightarrow> split_on c u = [u]"
  by (induction u) auto

lemma split_on_append: "c \<notin> set u \<Longrightarrow> split_on c (u @ c # rest) = u # split_on c rest"
  by (induction u) auto

text \<open>The three ways in which a credential does not resolve.\<close>

lemma verifyAuth_missing: "authorization req = None \<Longrightarrow> verifyAuth env req = None"
  by (simp add: verifyAuth_def)

lemma verifyAuth_malformed:
  "authorization req = Some h \<Longrightarrow> CHR '' '' \<notin> set h \<Longrightarrow> verifyAuth env req = None"
  by (simp add: verifyAuth_def split_on_no_sep)

lemma verifyAuth_rejected:
  "getUser env = (\<lambda>tok. None) \<Longrightarrow> verifyAuth env req = None"
  by (simp add: verifyAuth_def split: option.splits list.splits)

lemma split_comment_key:
  assumes "colon_free aid" and "colon_free cid"
  shows "split_on (CHR '':'') (''comment:'' @ aid @ '':'' @ cid) = [''comment'', aid, cid]"
proof -
  have "split_on (CHR '':'') (''comment'' @ CHR '':'' # (aid @ CHR '':'' # cid))
      = ''comment'' # split_on (CHR '':'') (aid @ CHR '':'' # cid)"
    by (rule split_on_append) simp
  also have "split_on (CHR '':'') (aid @ CHR '':'' # cid) = aid # split_on (CHR '':'') cid"
    using assms(1) by (intro split_on_append) (simp add: colon_free_def)
  also have "split_on (CHR '':'') cid = [cid]"
    using assms(2) by (intro split_on_no_sep) (simp add: colon_free_def)
  finally show ?thesis by simp
qed

lemma prefix_snoc_mem: "prefix (u @ [c]) v \<Longrightarrow> c \<in> set v"
  by (auto simp: prefix_def)

lemma prefix_segment:
  assumes "c \<notin> set aid" and "c \<notin> set cid" and "prefix (X @ [c]) (aid @ c # cid)"
  shows "X = aid"
  using assms
proof (induction X arbitrary: aid)
  case Nil
  then show ?case by (cases aid) auto
next
  case (Cons x X)
  show ?case
  proof (cases aid)
    case Nil
    with Cons.prems have "prefix (X @ [c]) cid" by simp
    then have "c \<in> set cid" by (rule prefix_snoc_mem)
    with Cons.prems show ?thesis by simp
  next
    case (Cons a aid')
    with Cons.prems Cons.IH [of aid'] show ?thesis by simp
  qed
qed

lemma is_uuid_colon_free:
  assumes "is_uuid u"
  shows "colon_free u"
proof -
  have n: "CHR '':'' \<notin> set ''0123456789abcdef-''" by simp
  from assms have "\<forall>c \<in> set u. c \<in> set ''0123456789abcdef-''"
    unfolding is_uuid_def list_all_iff by (rule conjunct2)
  with n show ?thesis unfolding colon_free_def by blast
qed

lemma set_upsert: "set (upsert k v rs) \<subseteq> insert (k, v) (set rs)"
  by (induction rs) auto

lemma store_inv_kv_set: "store_inv s \<Longrightarrow> row_ok (k, v) \<Longrightarrow> store_inv (kv_set s k v)"
  using set_upsert [of k v "rows s"] by (auto simp: store_inv_def kv_set_def)

lemma store_inv_kv_del: "store_inv s \<Longrightarrow> store_inv (kv_del s k)"
  by (simp add: store_inv_def kv_del_def)

lemma store_inv_kv_mdel: "store_inv s \<Longrightarrow> store_inv (kv_mdel s ks)"
  by (simp add: store_inv_def kv_mdel_def)

lemma article_key_colon_free:
  assumes "store_inv s" and "kv_get s (''article:'' @ u) = Some v"
  shows "colon_free u"
proof -
  from assms(2) have "(''article:'' @ u, v) \<in> set (rows s)"
    unfolding kv_get_def by (rule map_of_SomeD)
  with assms(1) have "row_ok (''article:'' @ u, v)" by (simp add: store_inv_def)
  then show ?thesis by (auto simp: row_ok_def)
qed

lemma row_ok_article: "colon_free u \<Longrightarrow> row_ok (''article:'' @ u, v)"
  unfolding row_ok_def by (intro disjI1 exI [of _ u]) simp

lemma row_ok_comment:
  assumes "colon_free aid" and "colon_free cid"
      and "obj_get v ''articleId'' = JStr aid" and "obj_get v ''id'' = JStr cid"
  shows "row_ok (''comment:'' @ aid @ '':'' @ cid, v)"
  unfolding row_ok_def using assms by (intro disjI2 exI [of _ aid] exI [of _ cid]) simp

lemma create_article_store:
  "snd (create_article env req uuid t1 t2 s) = s
   \<or> (\<exists>v. snd (create_article env req uuid t1 t2 s) = kv_set s (''article:'' @ uuid) v)"
  by (auto simp: create_article_def Let_def split: option.splits)

lemma update_article_store:
  "snd (update_article env req id' now s) = s
   \<or> (\<exists>existing v. kv_get s (''article:'' @ id') = Some existing
         \<and> snd (update_article env req id' now s) = kv_set s (''article:'' @ id') v)"
proof (cases "verifyAuth env req")
  case None
  then show ?thesis by (simp add: update_article_def)
next
  case auth: (Some userId)
  show ?thesis
  proof (cases "kv_get s (''article:'' @ id')")
    case None
    with auth show ?thesis by (simp add: update_article_def)
  next
    case ex: (Some existing)
    show ?thesis
    proof (cases "body req")
      case None
      with auth ex show ?thesis by (simp add: update_article_def)
    next
      case b: (Some b)
      show ?thesis
      proof (cases "destructurable b")
        case False
        with auth ex b show ?thesis by (simp add: update_article_def)
      next
        case True
        from update_article_succeeds [OF auth ex b True, of now]
        have "\<exists>v. snd (update_article env req id' now s) = kv_set s (''article:'' @ id') v"
          by (metis snd_conv)
        with ex show ?thesis by blast
      qed
    qed
  qed
qed

lemma delete_article_store:
  "snd (delete_article env req id' s) = s
   \<or> snd (delete_article env req id' s) = kv_del s (''article:'' @ id')
   \<or> (\<exists>ks. snd (delete_article env req id' s) = kv_mdel (kv_del s (''article:'' @ id')) ks)"
  by (auto simp: delete_article_def Let_def split: option.splits)

lemma delete_comment_store:
  "snd (delete_comment env req articleId commentId s) = s
   \<or> snd (delete_comment env req articleId commentId s)
       = kv_del s (''comment:'' @ articleId @ '':'' @ commentId)"
  by (simp add: delete_comment_def split: option.splits)

lemma create_comment_store:
  "snd (create_comment env req articleId commentId now s) = s
   \<or> (\<exists>article v. kv_get s (''article:'' @ articleId) = Some article
         \<and> obj_get v ''articleId'' = JStr articleId \<and> obj_get v ''id'' = JStr commentId
         \<and> snd (create_comment env req articleId commentId now s)
             = kv_set s (''comment:'' @ articleId @ '':'' @ commentId) v)"
proof (cases "body req")
  case None
  then show ?thesis by (simp add: create_comment_def)
next
  case b: (Some b)
  show ?thesis
  proof (cases "destructurable b \<and> truthy (js_get b ''name'') \<and> truthy (js_get b ''content'')")
    case False
    with b show ?thesis by (auto simp: create_comment_def Let_def)
  next
    case ok: True
    show ?thesis
    proof (cases "kv_get s (''article:'' @ articleId)")
      case None
      with b ok show ?thesis by (simp add: create_comment_def Let_def)
    next
      case (Some article)
      define v where "v = [(''id'', JStr commentId), (''articleId'', JStr articleId),
        (''name'', js_get b ''name''), (''content'', js_get b ''content''),
        (''createdAt'', JStr (toISOString env now))]"
      have "obj_get v ''articleId'' = JStr articleId" "obj_get v ''id'' = JStr commentId"
        by (simp_all add: v_def obj_get_Cons)
      moreover have "snd (create_comment env req articleId commentId now s)
             = kv_set s (''comment:'' @ articleId @ '':'' @ commentId) v"
        using b ok Some by (simp add: create_comment_def Let_def v_def)
      ultimately show ?thesis using Some by blast
    qed
  qed
qed

lemma store_inv_create_article:
  assumes "store_inv s" and "is_uuid uuid"
  shows "store_inv (snd (create_article env req uuid t1 t2 s))"
proof -
  from assms(2) have "colon_free uuid" by (rule is_uuid_colon_free)
  then have "\<And>v. row_ok (''article:'' @ uuid, v)" by (rule row_ok_article)
  with assms(1) have "\<And>v. store_inv (kv_set s (''article:'' @ uuid) v)"
    by (rule store_inv_kv_set)
  with create_article_store [of env req uuid t1 t2 s] assms(1) show ?thesis
    by (elim disjE exE) simp_all
qed

lemma store_inv_update_article:
  assumes "store_inv s"
  shows "store_inv (snd (update_article env req id' now s))"
proof -
  from update_article_store [of env req id' now s] show ?thesis
  proof (elim disjE exE conjE)
    assume "snd (update_article env req id' now s) = s"
    with assms show ?thesis by simp
  next
    fix existing v
    assume ex: "kv_get s (''article:'' @ id') = Some existing"
      and eq: "snd (update_article env req id' now s) = kv_set s (''article:'' @ id') v"
    from assms ex have "colon_free id'" by (rule article_key_colon_free)
    then have "row_ok (''article:'' @ id', v)" by (rule row_ok_article)
    with assms show ?thesis unfolding eq by (rule store_inv_kv_set)
  qed
qed

lemma store_inv_delete_article:
  assumes "store_inv s"
  shows "store_inv (snd (delete_article env req id' s))"
  using delete_article_store [of env req id' s] assms
  by (elim disjE exE) (simp_all add: store_inv_kv_mdel store_inv_kv_del)

lemma store_inv_delete_comment:
  assumes "store_inv s"
  shows "store_inv (snd (delete_comment env req articleId commentId s))"
  using delete_comment_store [of env req articleId commentId s] assms
  by (elim disjE) (simp_all add: store_inv_kv_del)

lemma store_inv_create_comment:
  assumes "store_inv s" and "is_uuid uuid"
  shows "store_inv (snd (create_comment env req articleId uuid now s))"
proof -
  from create_comment_store [of env req articleId uuid now s] show ?thesis
  proof (elim disjE exE conjE)
    assume "snd (create_comment env req articleId uuid now s) = s"
    with assms show ?thesis by simp
  next
    fix article v
    assume ex: "kv_get s (''article:'' @ articleId) = Some article"
      and f: "obj_get v ''articleId'' = JStr articleId" "obj_get v ''id'' = JStr uuid"
      and eq: "snd (create_comment env req articleId uuid now s)
                 = kv_set s (''comment:'' @ articleId @ '':'' @ uuid) v"
    from assms(1) ex have a: "colon_free articleId" by (rule article_key_colon_free)
    from assms(2) have c: "colon_free uuid" by (rule is_uuid_colon_free)
    from a c f have "row_ok (''comment:'' @ articleId @ '':'' @ uuid, v)" by (rule row_ok_comment)
    with assms(1) show ?thesis unfolding eq by (rule store_inv_kv_set)
  qed
qed

lemma store_inv_step: "store_inv s \<Longrightarrow> drawn_uuid x \<Longrightarrow> store_inv (step env s x)"
  by (cases x)
    (simp_all add: store_inv_create_article store_inv_update_article store_inv_delete_article
      store_inv_create_comment store_inv_delete_comment)

lemma store_inv_foldl:
  "store_inv s \<Longrightarrow> list_all drawn_uuid ops \<Longrightarrow> store_inv (foldl (step env) s ops)"
  by (induction ops arbitrary: s) (simp_all add: store_inv_step)

lemma store_inv_run: "drawn_uuids ops \<Longrightarrow> store_inv (run env ops)"
  unfolding run_def drawn_uuids_def
  by (rule store_inv_foldl) (simp_all add: store_inv_def kv_empty_def)

lemma row_ok_comment_key:
  assumes "row_ok r" and "prefix ''comment:'' (fst r)"
  shows "\<exists>aid cid. fst r = ''comment:'' @ aid @ '':'' @ cid \<and> colon_free aid \<and> colon_free cid
            \<and> obj_get (snd r) ''articleId'' = JStr aid \<and> obj_get (snd r) ''id'' = JStr cid"
  using assms by (auto simp: row_ok_def)

section \<open>Facts about createdAt\<close>

text \<open>
  On a platform where \<^verbatim>\<open>new Date\<close> reads what \<^verbatim>\<open>toISOString\<close> writes, every row of a store
  that the handlers build from the empty store carries a readable createdAt.
\<close>

lemma dated_kv_set: "dated env s \<Longrightarrow> createdAt_time env v \<noteq> None \<Longrightarrow> dated env (kv_set s k v)"
  using set_upsert [of k v "rows s"] by (auto simp: dated_def kv_set_def)

lemma dated_kv_del: "dated env s \<Longrightarrow> dated env (kv_del s k)"
  by (simp add: dated_def kv_del_def)

lemma dated_kv_mdel: "dated env s \<Longrightarrow> dated env (kv_mdel s ks)"
  by (simp add: dated_def kv_mdel_def)

lemma dated_create_article:
  assumes "dated env s" and "\<And>t. getTime env (JStr (toISOString env t)) \<noteq> None"
  shows "dated env (snd (create_article env req uuid t1 t2 s))"
proof (cases "\<exists>v. create_article env req uuid t1 t2 s = (Inr v, kv_set s (''article:'' @ uuid) v)
               \<and> obj_get v ''createdAt'' = JStr (toISOString env t1)")
  case True
  then obtain v where "snd (create_article env req uuid t1 t2 s) = kv_set s (''article:'' @ uuid) v"
    and "createdAt_time env v \<noteq> None"
    using assms(2) by (auto simp: createdAt_time_def)
  with assms(1) show ?thesis by (simp add: dated_kv_set)
next
  case False
  then have "snd (create_article env req uuid t1 t2 s) = s"
    by (auto simp: create_article_def Let_def obj_get_Cons split: option.splits)
  with assms(1) show ?thesis by simp
qed

lemma dated_create_comment:
  assumes "dated env s" and "\<And>t. getTime env (JStr (toISOString env t)) \<noteq> None"
  shows "dated env (snd (create_comment env req articleId commentId now s))"
proof (cases "\<exists>v. create_comment env req articleId commentId now s
                  = (Inr v, kv_set s (''comment:'' @ articleId @ '':'' @ commentId) v)
               \<and> obj_get v ''createdAt'' = JStr (toISOString env now)")
  case True
  then obtain v where "snd (create_comment env req articleId commentId now s)
      = kv_set s (''comment:'' @ articleId @ '':'' @ commentId) v"
    and "createdAt_time env v \<noteq> None"
    using assms(2) by (auto simp: createdAt_time_def)
  with assms(1) show ?thesis by (simp add: dated_kv_set)
next
  case False
  then have "snd (create_comment env req articleId commentId now s) = s"
    by (auto simp: create_comment_def Let_def obj_get_Cons split: option.splits)
  with assms(1) show ?thesis by simp
qed

lemma dated_update_article:
  assumes "dated env s"
  shows "dated env (snd (update_article env req id' now s))"
proof (cases "\<exists>userId existing b. verifyAuth env req = Some userId
     \<and> kv_get s (''article:'' @ id') = Some existing \<and> body req = Some b \<and> destructurable b")
  case True
  then obtain userId existing b where h: "verifyAuth env req = Some userId"
     "kv_get s (''article:'' @ id') = Some existing" "body req = Some b" "destructurable b"
    by blast
  from h(2) have "(''article:'' @ id', existing) \<in> set (rows s)"
    unfolding kv_get_def by (rule map_of_SomeD)
  with assms have e: "createdAt_time env existing \<noteq> None"
    by (auto simp: dated_def)
  show ?thesis
    unfolding update_article_succeeds [OF h] snd_conv
    using assms
  proof (rule dated_kv_set)
    show "createdAt_time env (obj_assign existing
        [(''title'', js_coalesce (js_get b ''title'') (obj_get existing ''title'')),
         (''content'', js_coalesce (js_get b ''content'') (obj_get existing ''content'')),
         (''excerpt'', js_coalesce (js_get b ''excerpt'') (obj_get existing ''excerpt'')),
         (''imageUrl'', if js_get b ''imageUrl'' \<noteq> JUndefined then js_get b ''imageUrl''
                        else obj_get existing ''imageUrl''),
         (''videoUrl'', if js_get b ''videoUrl'' \<noteq> JUndefined then js_get b ''videoUrl''
                        else obj_get existing ''videoUrl''),
         (''audioUrl'', if js_get b ''audioUrl'' \<noteq> JUndefined then js_get b ''audioUrl''
                        else obj_get existing ''audioUrl''),
         (''updatedAt'', JStr (toISOString env now))]) \<noteq> None"
      using e unfolding createdAt_time_def obj_get_obj_assign7 by simp
  qed
next
  case False
  then have "snd (update_article env req id' now s) = s"
    by (auto simp: update_article_def split: option.splits)
  with assms show ?thesis by simp
qed

lemma dated_delete_article: "dated env s \<Longrightarrow> dated env (snd (delete_article env req id' s))"
  using delete_article_store [of env req id' s]
  by (elim disjE exE) (simp_all add: dated_kv_mdel dated_kv_del)

lemma dated_delete_comment:
  "dated env s \<Longrightarrow> dated env (snd (delete_comment env req articleId commentId s))"
  using delete_comment_store [of env req articleId commentId s]
  by (elim disjE) (simp_all add: dated_kv_del)

lemma dated_step:
  assumes "dated env s" and "\<And>t. getTime env (JStr (toISOString env t)) \<noteq> None"
  shows "dated env (step env s x)"
  using assms
  by (cases x)
    (simp_all add: dated_create_article dated_update_article dated_delete_article
      dated_create_comment dated_delete_comment)

lemma dated_foldl:
  assumes "\<And>t. getTime env (JStr (toISOString env t)) \<noteq> None"
  shows "dated env s \<Longrightarrow> dated env (foldl (step env) s ops)"
  by (induction ops arbitrary: s) (simp_all add: dated_step assms)

lemma dated_run:
  assumes "\<And>t. getTime env (JStr (toISOString env t)) \<noteq> None"
  shows "dated env (run env ops)"
  unfolding run_def using assms
  by (rule dated_foldl) (simp add: dated_def kv_empty_def)

lemma dated_scan:
  assumes "dated env s"
  shows "\<forall>a \<in> set (map snd (kv_getByPrefix s p)). createdAt_time env a \<noteq> None"
  using assms by (auto simp: dated_def kv_getByPrefix_def)

section \<open>Authorization of the mutating routes\<close>

text \<open>
  Claim C7. When the credential of a request does not resolve to an identity (no header,
  no token in it, an empty token, or a token the provider rejects: \<open>verifyAuth\<close> gives
  null, see \<open>verifyAuth_missing\<close>, \<open>verifyAuth_malformed\<close> and \<open>verifyAuth_rejected\<close>),
  create-article, update-article, delete-article and
  delete-comment answer Unauthorized and return the store as it was, without any call
  to it. Create-comment does not consult the credential: with a body that carries a name
  and a content and an existing article it stores the comment although no identity was
  resolved.
\<close>

theorem unauthorized_persists_nothing:
  assumes "verifyAuth env req = None"
  shows "create_article env req uuid t1 t2 s = (Inl Unauthorized, s)
       \<and> update_article env req id' now s = (Inl Unauthorized, s)
       \<and> delete_article env req id' s = (Inl Unauthorized, s)
       \<and> delete_comment env req articleId commentId s = (Inl Unauthorized, s)
       \<and> (body req = Some b \<and> destructurable b \<and> truthy (js_get b ''name'')
              \<and> truthy (js_get b ''content'') \<and> kv_get s (''article:'' @ articleId) = Some article
            \<longrightarrow> (\<exists>comment. create_comment env req articleId commentId now s
                   = (Inr comment, kv_set s (''comment:'' @ articleId @ '':'' @ commentId) comment)))"
  using assms
  by (simp add: create_article_def update_article_def delete_article_def delete_comment_def
      create_comment_def Let_def)

theorem unauthorized_persists_nothing_witness:
  "verifyAuth demo_platform (anonymous_request demo_comment_body) = None
   \<and> create_article demo_platform (anonymous_request demo_comment_body) cid1 7 7 demo_store
       = (Inl Unauthorized, demo_store)
   \<and> update_article demo_platform (anonymous_request demo_comment_body) aid1 7 demo_store
       = (Inl Unauthorized, demo_store)
   \<and> delete_article demo_platform (anonymous_request demo_comment_body) aid1 demo_store
       = (Inl Unauthorized, demo_store)
   \<and> delete_comment demo_platform (anonymous_request demo_comment_body) aid1 cid1 demo_store
       = (Inl Unauthorized, demo_store)
   \<and> (\<exists>comment. create_comment demo_platform (anonymous_request demo_comment_body) aid1 cid1 7 demo_store
        = (Inr comment, kv_set demo_store (''comment:'' @ aid1 @ '':'' @ cid1) comment))"
proof -
  have h: "verifyAuth demo_platform (anonymous_request demo_comment_body) = None"
    by (rule verifyAuth_anonymous)
  have b: "body (anonymous_request demo_comment_body) = Some demo_comment_body
        \<and> destructurable demo_comment_body \<and> truthy (js_get demo_comment_body ''name'')
        \<and> truthy (js_get demo_comment_body ''content'')
        \<and> kv_get demo_store (''article:'' @ aid1) = Some demo_article1"
    using demo_store_article1
    by (simp add: anonymous_request_def demo_comment_body_def obj_get_def)
  from unauthorized_persists_nothing [OF h, where uuid = cid1 and ?t1.0 = 7 and ?t2.0 = 7
      and s = demo_store and id' = aid1 and now = 7 and articleId = aid1
      and commentId = cid1 and b = demo_comment_body and article = demo_article1] h b
  show ?thesis by blast
qed

section \<open>Creating an article\<close>

text \<open>
  Claim C2. A create-article request by a resolved caller whose body carries a non-empty
  title, a content string of at least 150 characters and no excerpt succeeds, and the
  article stored under \<open>article:<id>\<close> has as excerpt the first 150 characters of the
  content followed by "...".
\<close>

theorem create_article_derives_excerpt:
  assumes "verifyAuth env req = Some userId"
      and "body req = Some b"
      and "truthy (js_get b ''title'')"
      and "js_get b ''content'' = JStr c"
      and "150 \<le> length c"
      and "js_get b ''excerpt'' = JUndefined"
  shows "\<exists>article. create_article env req uuid t1 t2 s
            = (Inr article, kv_set s (''article:'' @ uuid) article)
          \<and> kv_get (kv_set s (''article:'' @ uuid) article) (''article:'' @ uuid) = Some article
          \<and> obj_get article ''excerpt'' = JStr (take 150 c @ ''...'')"
proof -
  from assms(3) have d: "destructurable b" by (cases b) simp_all
  from assms(5) have c: "c \<noteq> []" by auto
  show ?thesis
    using assms d c
    by (simp add: create_article_def Let_def derive_excerpt_def substring0_def kv_get_kv_set
        obj_get_Cons)
qed

theorem create_article_derives_excerpt_witness:
  "verifyAuth demo_platform (admin_request long_article_body) = Some ''user-1''
   \<and> body (admin_request long_article_body) = Some long_article_body
   \<and> truthy (js_get long_article_body ''title'')
   \<and> js_get long_article_body ''content'' = JStr (replicate 200 (CHR ''x''))
   \<and> 150 \<le> length (replicate 200 (CHR ''x''))
   \<and> js_get long_article_body ''excerpt'' = JUndefined
   \<and> (\<exists>article. create_article demo_platform (admin_request long_article_body) cid1 7 7 demo_store
            = (Inr article, kv_set demo_store (''article:'' @ cid1) article)
          \<and> kv_get (kv_set demo_store (''article:'' @ cid1) article) (''article:'' @ cid1) = Some article
          \<and> obj_get article ''excerpt'' = JStr (take 150 (replicate 200 (CHR ''x'')) @ ''...''))"
proof -
  have h1: "verifyAuth demo_platform (admin_request long_article_body) = Some ''user-1''"
    by (rule verifyAuth_admin)
  have h2: "body (admin_request long_article_body) = Some long_article_body"
    by (simp add: admin_request_def)
  have h3: "truthy (js_get long_article_body ''title'')"
    by (simp add: long_article_body_def obj_get_Cons)
  have h4: "js_get long_article_body ''content'' = JStr (replicate 200 (CHR ''x''))"
    by (simp add: long_article_body_def obj_get_Cons)
  have h5: "150 \<le> length (replicate 200 (CHR ''x''))"
    by simp
  have h6: "js_get long_article_body ''excerpt'' = JUndefined"
    by (simp add: long_article_body_def obj_get_Cons obj_get_Nil)
  from create_article_derives_excerpt [OF h1 h2 h3 h4 h5 h6, of cid1 7 7 demo_store] h1 h2 h3 h4 h5 h6
  show ?thesis by blast
qed

section \<open>Updating an article\<close>

text \<open>
  Claim C1 says that the title and the content of every stored article are non-empty
  strings, whether create-article or update-article wrote it. The create handler rejects
  a falsy title or content. The update handler has no such check: \<^verbatim>\<open>title ?? existingArticle.title\<close>
  keeps the old title only for null and undefined, so an update whose title is the empty
  string is stored. The evaluation below is that request on the first sample article.
\<close>

theorem update_stores_empty_title:
  "verifyAuth demo_platform (admin_request empty_title_body) = Some ''user-1''
   \<and> kv_get demo_store (''article:'' @ aid1) = Some demo_article1
   \<and> update_article demo_platform (admin_request empty_title_body) aid1 9 demo_store
       = (Inr untitled_article1, kv_set demo_store (''article:'' @ aid1) untitled_article1)
   \<and> kv_get (kv_set demo_store (''article:'' @ aid1) untitled_article1) (''article:'' @ aid1)
       = Some untitled_article1
   \<and> obj_get untitled_article1 ''title'' = JStr ''''"
  by code_simp

text \<open>
  Claim C4. In an update of an existing article by a resolved caller, for each of
  imageUrl, videoUrl and audioUrl: a field absent from the body keeps the stored value,
  and a field that is supplied (also as the empty string or as null) replaces it.
\<close>

theorem update_article_media_urls:
  assumes "verifyAuth env req = Some userId"
      and "kv_get s (''article:'' @ id') = Some existing"
      and "body req = Some b"
      and "destructurable b"
      and "f \<in> {''imageUrl'', ''videoUrl'', ''audioUrl''}"
  shows "\<exists>updated. update_article env req id' now s
            = (Inr updated, kv_set s (''article:'' @ id') updated)
          \<and> kv_get (kv_set s (''article:'' @ id') updated) (''article:'' @ id') = Some updated
          \<and> (js_get b f = JUndefined \<longrightarrow> obj_get updated f = obj_get existing f)
          \<and> (js_get b f \<noteq> JUndefined \<longrightarrow> obj_get updated f = js_get b f)"
proof -
  from assms(5) have "f = ''imageUrl'' \<or> f = ''videoUrl'' \<or> f = ''audioUrl''" by simp
  then show ?thesis
    unfolding update_article_succeeds [OF assms(1-4)]
    by (auto simp: kv_get_kv_set obj_get_obj_assign7)
qed

theorem update_article_media_urls_witness:
  "verifyAuth demo_platform (admin_request clear_media_body) = Some ''user-1''
   \<and> kv_get demo_store (''article:'' @ aid1) = Some demo_article1
   \<and> body (admin_request clear_media_body) = Some clear_media_body
   \<and> destructurable clear_media_body
   \<and> js_get clear_media_body ''imageUrl'' = JStr ''''
   \<and> js_get clear_media_body ''videoUrl'' = JNull
   \<and> js_get clear_media_body ''audioUrl'' = JUndefined
   \<and> (\<exists>updated. update_article demo_platform (admin_request clear_media_body) aid1 9 demo_store
            = (Inr updated, kv_set demo_store (''article:'' @ aid1) updated)
          \<and> kv_get (kv_set demo_store (''article:'' @ aid1) updated) (''article:'' @ aid1) = Some updated
          \<and> obj_get updated ''imageUrl'' = JStr ''''
          \<and> obj_get updated ''videoUrl'' = JNull
          \<and> obj_get updated ''audioUrl'' = JStr ''http://audio/1.mp3'')"
proof -
  have h1: "verifyAuth demo_platform (admin_request clear_media_body) = Some ''user-1''"
    by (rule verifyAuth_admin)
  have h2: "kv_get demo_store (''article:'' @ aid1) = Some demo_article1"
    by (rule demo_store_article1)
  have h3: "body (admin_request clear_media_body) = Some clear_media_body"
    by (simp add: admin_request_def)
  have h4: "destructurable clear_media_body"
    by (simp add: clear_media_body_def)
  have b: "js_get clear_media_body ''imageUrl'' = JStr ''''
      \<and> js_get clear_media_body ''videoUrl'' = JNull
      \<and> js_get clear_media_body ''audioUrl'' = JUndefined"
    by (simp add: clear_media_body_def obj_get_Cons obj_get_Nil)
  have a: "obj_get demo_article1 ''audioUrl'' = JStr ''http://audio/1.mp3''"
    by (simp add: demo_article1_def obj_get_Cons)
  have i: "''imageUrl'' \<in> {''imageUrl'', ''videoUrl'', ''audioUrl''}"
    and v: "''videoUrl'' \<in> {''imageUrl'', ''videoUrl'', ''audioUrl''}"
    and u: "''audioUrl'' \<in> {''imageUrl'', ''videoUrl'', ''audioUrl''}"
    by simp_all
  from update_article_media_urls [OF h1 h2 h3 h4 i, of 9]
    update_article_media_urls [OF h1 h2 h3 h4 v, of 9]
    update_article_media_urls [OF h1 h2 h3 h4 u, of 9]
    h1 h2 h3 h4 b a
  show ?thesis by (elim exE conjE) (simp del: kv_get_kv_set)
qed

text \<open>
  Claim C3 says that an update carrying only a title stores the new title, leaves every
  other field as it was and makes updatedAt strictly later. The handler writes the
  rendering of the clock reading it takes, whatever the stored value is: on the first
  sample article, whose updatedAt is the instant 3, an update served at the clock reading
  3 stores the same updatedAt again. And \<^verbatim>\<open>title ?? existingArticle.title\<close> keeps the stored
  title when the title supplied is null.
\<close>

theorem update_keeps_updatedAt_counterexample:
  "verifyAuth demo_platform (admin_request title_only_body) = Some ''user-1''
   \<and> kv_get demo_store (''article:'' @ aid1) = Some demo_article1
   \<and> update_article demo_platform (admin_request title_only_body) aid1 3 demo_store
       = (Inr renamed_article1, kv_set demo_store (''article:'' @ aid1) renamed_article1)
   \<and> kv_get (kv_set demo_store (''article:'' @ aid1) renamed_article1) (''article:'' @ aid1)
       = Some renamed_article1
   \<and> getTime demo_platform (obj_get demo_article1 ''updatedAt'') = Some 3
   \<and> getTime demo_platform (obj_get renamed_article1 ''updatedAt'') = Some 3
   \<and> verifyAuth demo_platform (admin_request null_title_body) = Some ''user-1''
   \<and> js_get null_title_body ''title'' = JNull
   \<and> update_article demo_platform (admin_request null_title_body) aid1 9 demo_store
       = (Inr unrenamed_article1, kv_set demo_store (''article:'' @ aid1) unrenamed_article1)
   \<and> kv_get (kv_set demo_store (''article:'' @ aid1) unrenamed_article1) (''article:'' @ aid1)
       = Some unrenamed_article1
   \<and> obj_get unrenamed_article1 ''title'' = JStr ''Hello''"
  by code_simp

text \<open>
  Claim C3, amended. An update by a resolved caller of an existing article whose body
  supplies a title and none of the other five fields succeeds; the stored article has the
  new title, except that a null title leaves the stored title; its content, excerpt,
  imageUrl, videoUrl, audioUrl, createdAt, authorId and id are unchanged, and its
  updatedAt is the rendering of the clock reading taken while the update is served. Where
  \<^verbatim>\<open>new Date\<close> reads that rendering back as the reading and reads the stored updatedAt as an
  instant, the new updatedAt is strictly later than the stored one if and only if the
  clock reading is later than the stored instant.
\<close>

theorem update_article_title_only:
  assumes "verifyAuth env req = Some userId"
      and "kv_get s (''article:'' @ id') = Some existing"
      and "body req = Some b"
      and "js_get b ''title'' \<noteq> JUndefined"
      and "js_get b ''content'' = JUndefined"
      and "js_get b ''excerpt'' = JUndefined"
      and "js_get b ''imageUrl'' = JUndefined"
      and "js_get b ''videoUrl'' = JUndefined"
      and "js_get b ''audioUrl'' = JUndefined"
  shows "\<exists>updated. update_article env req id' now s
            = (Inr updated, kv_set s (''article:'' @ id') updated)
          \<and> kv_get (kv_set s (''article:'' @ id') updated) (''article:'' @ id') = Some updated
          \<and> (js_get b ''title'' \<noteq> JNull \<longrightarrow> obj_get updated ''title'' = js_get b ''title'')
          \<and> (js_get b ''title'' = JNull \<longrightarrow> obj_get updated ''title'' = obj_get existing ''title'')
          \<and> obj_get updated ''content'' = obj_get existing ''content''
          \<and> obj_get updated ''excerpt'' = obj_get existing ''excerpt''
          \<and> obj_get updated ''imageUrl'' = obj_get existing ''imageUrl''
          \<and> obj_get updated ''videoUrl'' = obj_get existing ''videoUrl''
          \<and> obj_get updated ''audioUrl'' = obj_get existing ''audioUrl''
          \<and> obj_get updated ''createdAt'' = obj_get existing ''createdAt''
          \<and> obj_get updated ''authorId'' = obj_get existing ''authorId''
          \<and> obj_get updated ''id'' = obj_get existing ''id''
          \<and> obj_get updated ''updatedAt'' = JStr (toISOString env now)
          \<and> (getTime env (JStr (toISOString env now)) = Some (int now)
               \<and> getTime env (obj_get existing ''updatedAt'') = Some told
              \<longrightarrow> (\<exists>tnew. getTime env (obj_get updated ''updatedAt'') = Some tnew
                     \<and> (told < tnew \<longleftrightarrow> told < int now)))"
proof -
  from assms(4) have d: "destructurable b" by (cases b) simp_all
  have n: "nullish (js_get b ''title'') \<longleftrightarrow> js_get b ''title'' = JNull"
    using assms(4) by (cases "js_get b ''title''") simp_all
  show ?thesis
    unfolding update_article_succeeds [OF assms(1-3) d]
    using assms(5-9) n
    by (simp add: kv_get_kv_set obj_get_obj_assign7 js_coalesce_def)
qed

theorem update_article_title_only_witness:
  "verifyAuth demo_platform (admin_request title_only_body) = Some ''user-1''
   \<and> kv_get demo_store (''article:'' @ aid1) = Some demo_article1
   \<and> body (admin_request title_only_body) = Some title_only_body
   \<and> js_get title_only_body ''title'' = JStr ''Renamed''
   \<and> js_get title_only_body ''content'' = JUndefined
   \<and> js_get title_only_body ''excerpt'' = JUndefined
   \<and> js_get title_only_body ''imageUrl'' = JUndefined
   \<and> js_get title_only_body ''videoUrl'' = JUndefined
   \<and> js_get title_only_body ''audioUrl'' = JUndefined
   \<and> getTime demo_platform (JStr (toISOString demo_platform 9)) = Some (int 9)
   \<and> getTime demo_platform (obj_get demo_article1 ''updatedAt'') = Some 3
   \<and> (\<exists>updated. update_article demo_platform (admin_request title_only_body) aid1 9 demo_store
            = (Inr updated, kv_set demo_store (''article:'' @ aid1) updated)
          \<and> kv_get (kv_set demo_store (''article:'' @ aid1) updated) (''article:'' @ aid1) = Some updated
          \<and> obj_get updated ''title'' = JStr ''Renamed''
          \<and> obj_get updated ''content'' = JStr ''hello world''
          \<and> obj_get updated ''createdAt'' = JStr ''III''
          \<and> obj_get updated ''updatedAt'' = JStr (toISOString demo_platform 9)
          \<and> (\<exists>tnew. getTime demo_platform (obj_get updated ''updatedAt'') = Some tnew \<and> 3 < tnew))
   \<and> body (admin_request null_title_body) = Some null_title_body
   \<and> js_get null_title_body ''title'' = JNull
   \<and> (\<exists>updated. update_article demo_platform (admin_request null_title_body) aid1 9 demo_store
            = (Inr updated, kv_set demo_store (''article:'' @ aid1) updated)
          \<and> obj_get updated ''title'' = JStr ''Hello'')"
proof -
  have h1: "verifyAuth demo_platform (admin_request title_only_body) = Some ''user-1''"
    and k1: "verifyAuth demo_platform (admin_request null_title_body) = Some ''user-1''"
    by (rule verifyAuth_admin)+
  have h2: "kv_get demo_store (''article:'' @ aid1) = Some demo_article1"
    by (rule demo_store_article1)
  have h3: "body (admin_request title_only_body) = Some title_only_body"
    and k3: "body (admin_request null_title_body) = Some null_title_body"
    by (simp_all add: admin_request_def)
  have t: "js_get title_only_body ''title'' = JStr ''Renamed''"
    by (simp add: title_only_body_def obj_get_Cons)
  then have h4: "js_get title_only_body ''title'' \<noteq> JUndefined" by simp
  have h5: "js_get title_only_body ''content'' = JUndefined"
    and h6: "js_get title_only_body ''excerpt'' = JUndefined"
    and h7: "js_get title_only_body ''imageUrl'' = JUndefined"
    and h8: "js_get title_only_body ''videoUrl'' = JUndefined"
    and h9: "js_get title_only_body ''audioUrl'' = JUndefined"
    by (simp_all add: title_only_body_def obj_get_Cons obj_get_Nil)
  have n: "js_get null_title_body ''title'' = JNull"
    by (simp add: null_title_body_def obj_get_Cons)
  then have k4: "js_get null_title_body ''title'' \<noteq> JUndefined" by simp
  have k5: "js_get null_title_body ''content'' = JUndefined"
    and k6: "js_get null_title_body ''excerpt'' = JUndefined"
    and k7: "js_get null_title_body ''imageUrl'' = JUndefined"
    and k8: "js_get null_title_body ''videoUrl'' = JUndefined"
    and k9: "js_get null_title_body ''audioUrl'' = JUndefined"
    by (simp_all add: null_title_body_def obj_get_Cons obj_get_Nil)
  have g1: "getTime demo_platform (JStr (toISOString demo_platform 9)) = Some (int 9)"
    by code_simp
  have g2: "getTime demo_platform (obj_get demo_article1 ''updatedAt'') = Some 3"
    by code_simp
  have a: "obj_get demo_article1 ''content'' = JStr ''hello world''
       \<and> obj_get demo_article1 ''createdAt'' = JStr ''III''
       \<and> obj_get demo_article1 ''title'' = JStr ''Hello''"
    by (simp add: demo_article1_def obj_get_Cons)
  from update_article_title_only [OF h1 h2 h3 h4 h5 h6 h7 h8 h9, of 9 3] t a g1 g2
  have p1: "\<exists>updated. update_article demo_platform (admin_request title_only_body) aid1 9 demo_store
            = (Inr updated, kv_set demo_store (''article:'' @ aid1) updated)
          \<and> kv_get (kv_set demo_store (''article:'' @ aid1) updated) (''article:'' @ aid1) = Some updated
          \<and> obj_get updated ''title'' = JStr ''Renamed''
          \<and> obj_get updated ''content'' = JStr ''hello world''
          \<and> obj_get updated ''createdAt'' = JStr ''III''
          \<and> obj_get updated ''updatedAt'' = JStr (toISOString demo_platform 9)
          \<and> (\<exists>tnew. getTime demo_platform (obj_get updated ''updatedAt'') = Some tnew \<and> 3 < tnew)"
    by (elim exE conjE) (simp del: kv_get_kv_set)
  from update_article_title_only [OF k1 h2 k3 k4 k5 k6 k7 k8 k9, of 9 3] n a
  have p2: "\<exists>updated. update_article demo_platform (admin_request null_title_body) aid1 9 demo_store
            = (Inr updated, kv_set demo_store (''article:'' @ aid1) updated)
          \<and> obj_get updated ''title'' = JStr ''Hello''"
    by (elim exE conjE) (simp del: kv_get_kv_set)
  from h1 h2 h3 t h5 h6 h7 h8 h9 g1 g2 p1 k3 n p2 show ?thesis by blast
qed

section \<open>Deleting an article\<close>

text \<open>
  Claim C5. A delete-article request by a resolved caller on an existing article X with
  any number of stored comments succeeds; afterwards the store has no row for
  \<open>article:X\<close> and no row whose key starts with \<open>comment:X:\<close>, every other row is kept, and
  list-comments for X returns the empty list. The calls issued are the delete of the
  article key first and then, when comment keys were collected, one batch delete of all
  of them (with nothing collected the batch call is skipped).
\<close>

theorem delete_article_cascade:
  assumes "verifyAuth env req = Some userId"
      and "kv_get s (''article:'' @ X) = Some article"
  shows "\<exists>s'. delete_article env req X s = (Inr (), s')
          \<and> kv_get s' (''article:'' @ X) = None
          \<and> kv_getByPrefix s' (''comment:'' @ X @ '':'') = []
          \<and> list_comments env X s' = []
          \<and> rows s' = filter (\<lambda>r. fst r \<noteq> ''article:'' @ X
                                  \<and> \<not> prefix (''comment:'' @ X @ '':'') (fst r)) (rows s)
          \<and> calls s' = calls s @ KvDel (''article:'' @ X)
                # (if kv_getByPrefix s (''comment:'' @ X @ '':'') = [] then []
                   else [KvMDel (map fst (kv_getByPrefix s (''comment:'' @ X @ '':'')))])"
proof -
  define k where "k = ''article:'' @ X"
  define p where "p = ''comment:'' @ X @ '':''"
  define s1 where "s1 = kv_del s k"
  define keys where "keys = map fst (kv_getByPrefix s1 p)"
  define s' where "s' = (if length keys > 0 then kv_mdel s1 keys else s1)"
  have np: "\<not> prefix p k" by (simp add: p_def k_def)
  have scan1: "kv_getByPrefix s1 p = kv_getByPrefix s p"
  proof -
    have "filter (\<lambda>r. prefix p (fst r)) (filter (\<lambda>r. fst r \<noteq> k) (rows s))
        = filter (\<lambda>r. prefix p (fst r)) (rows s)"
      unfolding filter_filter using np by (intro filter_cong refl) auto
    then show ?thesis by (simp add: kv_getByPrefix_def kv_del_def s1_def)
  qed
  have run: "delete_article env req X s = (Inr (), s')"
    using assms by (simp add: delete_article_def Let_def s'_def keys_def s1_def k_def p_def)
  have mem: "\<And>r. r \<in> set (rows s1) \<Longrightarrow> prefix p (fst r) \<Longrightarrow> fst r \<in> set keys"
    by (auto simp: kv_getByPrefix_def keys_def)
  have keys_sound: "\<And>r. fst r \<in> set keys \<Longrightarrow> prefix p (fst r)"
    by (auto simp: kv_getByPrefix_def keys_def)
  have rows1: "rows s' = filter (\<lambda>r. \<not> prefix p (fst r)) (rows s1)"
  proof (cases "keys = []")
    case True
    then have "\<And>r. r \<in> set (rows s1) \<Longrightarrow> \<not> prefix p (fst r)"
      using mem by fastforce
    then have "filter (\<lambda>r. \<not> prefix p (fst r)) (rows s1) = rows s1"
      by (simp add: filter_id_conv)
    with True show ?thesis by (simp add: s'_def)
  next
    case False
    have "filter (\<lambda>r. fst r \<notin> set keys) (rows s1) = filter (\<lambda>r. \<not> prefix p (fst r)) (rows s1)"
      using mem keys_sound by (intro filter_cong refl) blast
    with False show ?thesis by (simp add: kv_mdel_def s'_def)
  qed
  have rows_s: "rows s' = filter (\<lambda>r. fst r \<noteq> k \<and> \<not> prefix p (fst r)) (rows s)"
    unfolding rows1 by (simp add: kv_del_def s1_def conj_commute)
  have get: "kv_get s' k = None"
    unfolding kv_get_def rows_s by (rule map_of_filter_key_None)
  have scan: "kv_getByPrefix s' p = []"
    unfolding kv_getByPrefix_def rows_s by (simp add: filter_empty_conv)
  have lc: "list_comments env X s' = []"
    using scan by (simp add: list_comments_def js_sort_Nil p_def)
  have cl: "calls s' = calls s @ KvDel k
                # (if kv_getByPrefix s p = [] then [] else [KvMDel (map fst (kv_getByPrefix s p))])"
    using scan1 by (simp add: kv_mdel_def kv_del_def s'_def keys_def s1_def)
  from run get scan lc rows_s cl show ?thesis
    unfolding k_def p_def by blast
qed

theorem delete_article_cascade_witness:
  "verifyAuth demo_platform (admin_request empty_body) = Some ''user-1''
   \<and> kv_get demo_store (''article:'' @ aid1) = Some demo_article1
   \<and> length (kv_getByPrefix demo_store (''comment:'' @ aid1 @ '':'')) = 2
   \<and> (\<exists>s'. delete_article demo_platform (admin_request empty_body) aid1 demo_store = (Inr (), s')
          \<and> kv_get s' (''article:'' @ aid1) = None
          \<and> kv_getByPrefix s' (''comment:'' @ aid1 @ '':'') = []
          \<and> list_comments demo_platform aid1 s' = []
          \<and> rows s' = [(''article:'' @ aid2, demo_article2)]
          \<and> calls s' = [KvDel (''article:'' @ aid1),
                         KvMDel [''comment:'' @ aid1 @ '':'' @ cid2, ''comment:'' @ aid1 @ '':'' @ cid1]])
   \<and> kv_get demo_store (''article:'' @ aid2) = Some demo_article2
   \<and> length (kv_getByPrefix demo_store (''comment:'' @ aid2 @ '':'')) = 0
   \<and> (\<exists>s'. delete_article demo_platform (admin_request empty_body) aid2 demo_store = (Inr (), s')
          \<and> kv_get s' (''article:'' @ aid2) = None
          \<and> kv_getByPrefix s' (''comment:'' @ aid2 @ '':'') = []
          \<and> list_comments demo_platform aid2 s' = []
          \<and> calls s' = [KvDel (''article:'' @ aid2)])"
proof -
  have h1: "verifyAuth demo_platform (admin_request empty_body) = Some ''user-1''"
    by (rule verifyAuth_admin)
  have h2: "kv_get demo_store (''article:'' @ aid1) = Some demo_article1"
    by (rule demo_store_article1)
  have h3: "kv_get demo_store (''article:'' @ aid2) = Some demo_article2"
    by code_simp
  have c1: "kv_getByPrefix demo_store (''comment:'' @ aid1 @ '':'')
      = [(''comment:'' @ aid1 @ '':'' @ cid2, demo_comment2),
         (''comment:'' @ aid1 @ '':'' @ cid1, demo_comment1)]"
    by code_simp
  have c2: "kv_getByPrefix demo_store (''comment:'' @ aid2 @ '':'') = []"
    by code_simp
  have r1: "filter (\<lambda>r. fst r \<noteq> ''article:'' @ aid1
                          \<and> \<not> prefix (''comment:'' @ aid1 @ '':'') (fst r)) (rows demo_store)
      = [(''article:'' @ aid2, demo_article2)]"
    by code_simp
  have cl: "calls demo_store = []"
    by (simp add: demo_store_def)
  note a = delete_article_cascade [OF h1 h2, unfolded r1 c1 cl]
  note b = delete_article_cascade [OF h1 h3, unfolded c2 cl]
  from a b h1 h2 h3 show ?thesis
    unfolding c1 c2 by (elim exE conjE) simp
qed

section \<open>Creating a comment\<close>

text \<open>
  Claim C6 says that create-comment for an article id without article always answers
  Not-Found. The handler reads the body and checks name and content before it looks the
  article up: with no such article, an empty object as body is answered Validation-Failed
  and a null body, on which the destructuring throws, is answered 500.
\<close>

theorem create_comment_validates_first_counterexample:
  "kv_get demo_store (''article:'' @ cid1) = None
   \<and> create_comment demo_platform (anonymous_request empty_body) cid1 cid2 7 demo_store
       = (Inl ValidationFailed, demo_store)
   \<and> create_comment demo_platform (anonymous_request JNull) cid1 cid2 7 demo_store
       = (Inl ServerError, demo_store)"
  by code_simp

text \<open>
  Claim C6, amended. Create-comment for an article id without article leaves the store
  unchanged. It answers Not-Found when the body carries a non-empty name and content;
  Validation-Failed when the body is a JSON value other than null in which name or content
  is missing or empty; and 500 when the body is not JSON or is null.
\<close>

theorem create_comment_no_article:
  assumes "kv_get s (''article:'' @ articleId) = None"
  shows "snd (create_comment env req articleId commentId now s) = s
       \<and> (body req = Some b \<and> truthy (js_get b ''name'') \<and> truthy (js_get b ''content'')
            \<longrightarrow> create_comment env req articleId commentId now s = (Inl NotFound, s))
       \<and> (body req = Some b \<and> destructurable b
              \<and> (\<not> truthy (js_get b ''name'') \<or> \<not> truthy (js_get b ''content''))
            \<longrightarrow> create_comment env req articleId commentId now s = (Inl ValidationFailed, s))
       \<and> (body req = None \<or> (body req = Some b \<and> \<not> destructurable b)
            \<longrightarrow> create_comment env req articleId commentId now s = (Inl ServerError, s))"
proof -
  have d: "truthy (js_get b ''name'') \<Longrightarrow> destructurable b" by (cases b) simp_all
  show ?thesis
    using assms d
    by (auto simp: create_comment_def Let_def split: option.splits)
qed

theorem create_comment_no_article_witness:
  "kv_get demo_store (''article:'' @ cid1) = None
   \<and> snd (create_comment demo_platform (anonymous_request demo_comment_body) cid1 cid2 7 demo_store)
       = demo_store
   \<and> body (anonymous_request demo_comment_body) = Some demo_comment_body
   \<and> truthy (js_get demo_comment_body ''name'') \<and> truthy (js_get demo_comment_body ''content'')
   \<and> create_comment demo_platform (anonymous_request demo_comment_body) cid1 cid2 7 demo_store
       = (Inl NotFound, demo_store)
   \<and> body (anonymous_request empty_body) = Some empty_body \<and> destructurable empty_body
   \<and> \<not> truthy (js_get empty_body ''name'')
   \<and> create_comment demo_platform (anonymous_request empty_body) cid1 cid2 7 demo_store
       = (Inl ValidationFailed, demo_store)
   \<and> body (anonymous_request JNull) = Some JNull \<and> \<not> destructurable JNull
   \<and> create_comment demo_platform (anonymous_request JNull) cid1 cid2 7 demo_store
       = (Inl ServerError, demo_store)
   \<and> body \<lparr>authorization = None, body = None\<rparr> = None
   \<and> create_comment demo_platform \<lparr>authorization = None, body = None\<rparr> cid1 cid2 7 demo_store
       = (Inl ServerError, demo_store)"
proof -
  have h: "kv_get demo_store (''article:'' @ cid1) = None"
    by code_simp
  have b1: "body (anonymous_request demo_comment_body) = Some demo_comment_body
      \<and> truthy (js_get demo_comment_body ''name'') \<and> truthy (js_get demo_comment_body ''content'')"
    by (simp add: anonymous_request_def demo_comment_body_def obj_get_Cons)
  have b2: "body (anonymous_request empty_body) = Some empty_body \<and> destructurable empty_body
      \<and> \<not> truthy (js_get empty_body ''name'')"
    by (simp add: anonymous_request_def empty_body_def obj_get_Nil)
  have b3: "body (anonymous_request JNull) = Some JNull \<and> \<not> destructurable JNull"
    by (simp add: anonymous_request_def)
  have b4: "body \<lparr>authorization = None, body = None\<rparr> = None"
    by simp
  note t1 = create_comment_no_article [OF h, of demo_platform
      "anonymous_request demo_comment_body" cid2 7 demo_comment_body]
  note t2 = create_comment_no_article [OF h, of demo_platform
      "anonymous_request empty_body" cid2 7 empty_body]
  note t3 = create_comment_no_article [OF h, of demo_platform
      "anonymous_request JNull" cid2 7 JNull]
  note t4 = create_comment_no_article [OF h, of demo_platform
      "\<lparr>authorization = None, body = None\<rparr>" cid2 7 JNull]
  from t1 have c0: "snd (create_comment demo_platform (anonymous_request demo_comment_body)
      cid1 cid2 7 demo_store) = demo_store"
    by (rule conjunct1)
  from t1 b1 have c1: "create_comment demo_platform (anonymous_request demo_comment_body)
      cid1 cid2 7 demo_store = (Inl NotFound, demo_store)"
    by (elim conjE) (erule mp, intro conjI)
  from t2 b2 have c2: "create_comment demo_platform (anonymous_request empty_body)
      cid1 cid2 7 demo_store = (Inl ValidationFailed, demo_store)"
    by (elim conjE) (erule mp, intro conjI disjI1)
  from t3 b3 have c3: "create_comment demo_platform (anonymous_request JNull)
      cid1 cid2 7 demo_store = (Inl ServerError, demo_store)"
    by (elim conjE) (erule mp, intro disjI2 conjI)
  from t4 b4 have c4: "create_comment demo_platform \<lparr>authorization = None, body = None\<rparr>
      cid1 cid2 7 demo_store = (Inl ServerError, demo_store)"
    by (elim conjE) (erule mp, intro disjI1)
  from h c0 b1 c1 b2 c2 b3 c3 b4 c4 show ?thesis
    by (intro conjI) (elim conjE, assumption)+
qed

section \<open>Listings\<close>

text \<open>
  Claim C8. List-articles returns the values of all rows whose key starts with
  \<open>article:\<close>, sorted descending by createdAt: of two returned articles the one with the
  later createdAt stands in front, whatever the scan order of the store (another store
  with the same rows in another order gives the same articles and the same sequence of
  instants). The values scanned are assumed to carry a createdAt that \<^verbatim>\<open>new Date\<close> reads, as
  every row written by the handlers does (\<open>dated_run\<close>, \<open>dated_scan\<close>).
\<close>

theorem list_articles_newest_first:
  assumes "\<forall>a \<in> set (map snd (kv_getByPrefix s ''article:'')). createdAt_time env a \<noteq> None"
  shows "mset (list_articles env s) = mset (map snd (kv_getByPrefix s ''article:''))
       \<and> sorted_wrt (\<lambda>a b. the (createdAt_time env a) \<ge> the (createdAt_time env b))
            (list_articles env s)
       \<and> (\<forall>i j. i < length (list_articles env s) \<and> j < length (list_articles env s)
             \<and> the (createdAt_time env (list_articles env s ! i))
                 < the (createdAt_time env (list_articles env s ! j))
            \<longrightarrow> j < i)
       \<and> (\<forall>s2. mset (rows s2) = mset (rows s)
            \<longrightarrow> mset (list_articles env s2) = mset (list_articles env s)
              \<and> map (\<lambda>a. the (createdAt_time env a)) (list_articles env s2)
                = map (\<lambda>a. the (createdAt_time env a)) (list_articles env s))"
proof -
  define xs where "xs = map snd (kv_getByPrefix s ''article:'')"
  define f where "f = (\<lambda>a. - the (createdAt_time env a))"
  have valid: "\<And>a. a \<in> set xs \<Longrightarrow> createdAt_time env a \<noteq> None"
    using assms unfolding xs_def by blast
  have eq: "list_articles env s = sort_key f xs"
    unfolding list_articles_def Let_def xs_def [symmetric] f_def
    using valid by (rule js_sort_newest_first)
  have srt: "sorted (map f (sort_key f xs))" by simp
  have s1: "mset (sort_key f xs) = mset xs" by simp
  have s2: "sorted_wrt (\<lambda>a b. the (createdAt_time env a) \<ge> the (createdAt_time env b)) (sort_key f xs)"
    using srt by (simp add: sorted_map f_def)
  have s3: "\<forall>i j. i < length (sort_key f xs) \<and> j < length (sort_key f xs)
             \<and> the (createdAt_time env (sort_key f xs ! i))
                 < the (createdAt_time env (sort_key f xs ! j))
            \<longrightarrow> j < i"
  proof (intro allI impI)
    fix i j
    assume a: "i < length (sort_key f xs) \<and> j < length (sort_key f xs)
             \<and> the (createdAt_time env (sort_key f xs ! i))
                 < the (createdAt_time env (sort_key f xs ! j))"
    then have "f (sort_key f xs ! j) < f (sort_key f xs ! i)" by (simp add: f_def)
    with srt a show "j < i" by (blast intro: sorted_key_positions)
  qed
  have s4: "\<forall>s2. mset (rows s2) = mset (rows s)
            \<longrightarrow> mset (list_articles env s2) = mset (sort_key f xs)
              \<and> map (\<lambda>a. the (createdAt_time env a)) (list_articles env s2)
                = map (\<lambda>a. the (createdAt_time env a)) (sort_key f xs)"
  proof (intro allI impI)
    fix s2 :: kv assume r: "mset (rows s2) = mset (rows s)"
    define ys where "ys = map snd (kv_getByPrefix s2 ''article:'')"
    have m: "mset ys = mset xs"
      unfolding ys_def xs_def using r by (rule scan_values_mset)
    then have "set ys = set xs" by (rule mset_eq_setD)
    with valid have valid2: "\<And>a. a \<in> set ys \<Longrightarrow> createdAt_time env a \<noteq> None" by simp
    have eq2: "list_articles env s2 = sort_key f ys"
      unfolding list_articles_def Let_def ys_def [symmetric] f_def
      using valid2 by (rule js_sort_newest_first)
    have "map f (sort_key f ys) = map f (sort_key f xs)"
      using m by (rule sort_key_same_keys)
    then have "map (uminus \<circ> f) (sort_key f ys) = map (uminus \<circ> f) (sort_key f xs)"
      unfolding map_map [symmetric] by simp
    then have "map (\<lambda>a. the (createdAt_time env a)) (sort_key f ys)
             = map (\<lambda>a. the (createdAt_time env a)) (sort_key f xs)"
      by (simp add: f_def comp_def)
    with m show "mset (list_articles env s2) = mset (sort_key f xs)
              \<and> map (\<lambda>a. the (createdAt_time env a)) (list_articles env s2)
                = map (\<lambda>a. the (createdAt_time env a)) (sort_key f xs)"
      unfolding eq2 by simp
  qed
  from s1 s2 s3 s4 show ?thesis
    unfolding eq xs_def by blast
qed

theorem list_articles_newest_first_witness:
  "map snd (kv_getByPrefix demo_store ''article:'') = [demo_article1, demo_article2]
   \<and> createdAt_time demo_platform demo_article1 = Some 3
   \<and> createdAt_time demo_platform demo_article2 = Some 5
   \<and> list_articles demo_platform demo_store = [demo_article2, demo_article1]
   \<and> mset (list_articles demo_platform demo_store) = mset [demo_article1, demo_article2]
   \<and> mset (rows demo_store_rev) = mset (rows demo_store)
   \<and> map snd (kv_getByPrefix demo_store_rev ''article:'') = [demo_article2, demo_article1]
   \<and> mset (list_articles demo_platform demo_store_rev) = mset (list_articles demo_platform demo_store)"
proof -
  have scan: "map snd (kv_getByPrefix demo_store ''article:'') = [demo_article1, demo_article2]"
    by code_simp
  have t1: "createdAt_time demo_platform demo_article1 = Some 3"
    by code_simp
  have t2: "createdAt_time demo_platform demo_article2 = Some 5"
    by code_simp
  have res: "list_articles demo_platform demo_store = [demo_article2, demo_article1]"
    by code_simp
  have rv: "mset (rows demo_store_rev) = mset (rows demo_store)"
    by (simp add: demo_store_rev_def)
  have scan2: "map snd (kv_getByPrefix demo_store_rev ''article:'') = [demo_article2, demo_article1]"
    by code_simp
  have h: "\<forall>a \<in> set (map snd (kv_getByPrefix demo_store ''article:'')).
             createdAt_time demo_platform a \<noteq> None"
    unfolding scan by (simp add: t1 t2)
  from list_articles_newest_first [OF h] rv
  have "mset (list_articles demo_platform demo_store) = mset [demo_article1, demo_article2]
      \<and> mset (list_articles demo_platform demo_store_rev) = mset (list_articles demo_platform demo_store)"
    unfolding scan by blast
  with scan t1 t2 res rv scan2 show ?thesis by blast
qed

text \<open>
  Claim C9. List-comments for an article id returns the values of all rows whose key
  starts with \<open>comment:<articleId>:\<close>, sorted ascending by createdAt: of two returned
  comments the older one stands in front. Its comparator is the comparator of the article
  listing with the arguments exchanged. The values scanned are assumed to carry a
  createdAt that \<^verbatim>\<open>new Date\<close> reads.
\<close>

theorem list_comments_oldest_first:
  assumes "\<forall>c \<in> set (map snd (kv_getByPrefix s (''comment:'' @ articleId @ '':''))).
             createdAt_time env c \<noteq> None"
  shows "mset (list_comments env articleId s)
           = mset (map snd (kv_getByPrefix s (''comment:'' @ articleId @ '':'')))
       \<and> sorted_wrt (\<lambda>a b. the (createdAt_time env a) \<le> the (createdAt_time env b))
            (list_comments env articleId s)
       \<and> (\<forall>i j. i < length (list_comments env articleId s) \<and> j < length (list_comments env articleId s)
             \<and> the (createdAt_time env (list_comments env articleId s ! i))
                 < the (createdAt_time env (list_comments env articleId s ! j))
            \<longrightarrow> i < j)
       \<and> oldest_first env a b = newest_first env b a"
proof -
  define xs where "xs = map snd (kv_getByPrefix s (''comment:'' @ articleId @ '':''))"
  define f where "f = (\<lambda>a. the (createdAt_time env a))"
  have valid: "\<And>a. a \<in> set xs \<Longrightarrow> createdAt_time env a \<noteq> None"
    using assms unfolding xs_def by blast
  have eq: "list_comments env articleId s = sort_key f xs"
    unfolding list_comments_def Let_def xs_def [symmetric] f_def
    using valid by (rule js_sort_oldest_first)
  have srt: "sorted (map f (sort_key f xs))" by simp
  have s1: "mset (sort_key f xs) = mset xs" by simp
  have s2: "sorted_wrt (\<lambda>a b. the (createdAt_time env a) \<le> the (createdAt_time env b)) (sort_key f xs)"
    using srt by (simp add: sorted_map f_def)
  have s3: "\<forall>i j. i < length (sort_key f xs) \<and> j < length (sort_key f xs)
             \<and> the (createdAt_time env (sort_key f xs ! i))
                 < the (createdAt_time env (sort_key f xs ! j))
            \<longrightarrow> i < j"
  proof (intro allI impI)
    fix i j
    assume a: "i < length (sort_key f xs) \<and> j < length (sort_key f xs)
             \<and> the (createdAt_time env (sort_key f xs ! i))
                 < the (createdAt_time env (sort_key f xs ! j))"
    then have "f (sort_key f xs ! i) < f (sort_key f xs ! j)" by (simp add: f_def)
    with srt a show "i < j" by (blast intro: sorted_key_positions)
  qed
  have s4: "oldest_first env a b = newest_first env b a"
    by (simp add: oldest_first_def newest_first_def)
  from s1 s2 s3 s4 show ?thesis
    unfolding eq xs_def by blast
qed

theorem list_comments_oldest_first_witness:
  "map snd (kv_getByPrefix demo_store (''comment:'' @ aid1 @ '':'')) = [demo_comment2, demo_comment1]
   \<and> createdAt_time demo_platform demo_comment1 = Some 4
   \<and> createdAt_time demo_platform demo_comment2 = Some 6
   \<and> list_comments demo_platform aid1 demo_store = [demo_comment1, demo_comment2]
   \<and> mset (list_comments demo_platform aid1 demo_store) = mset [demo_comment2, demo_comment1]
   \<and> oldest_first demo_platform demo_comment1 demo_comment2
       = newest_first demo_platform demo_comment2 demo_comment1"
proof -
  have scan: "map snd (kv_getByPrefix demo_store (''comment:'' @ aid1 @ '':''))
      = [demo_comment2, demo_comment1]"
    by code_simp
  have t1: "createdAt_time demo_platform demo_comment1 = Some 4"
    by code_simp
  have t2: "createdAt_time demo_platform demo_comment2 = Some 6"
    by code_simp
  have res: "list_comments demo_platform aid1 demo_store = [demo_comment1, demo_comment2]"
    by code_simp
  have h: "\<forall>c \<in> set (map snd (kv_getByPrefix demo_store (''comment:'' @ aid1 @ '':''))).
             createdAt_time demo_platform c \<noteq> None"
    unfolding scan by (simp add: t1 t2)
  from list_comments_oldest_first [OF h, of demo_comment1 demo_comment2]
  have "mset (list_comments demo_platform aid1 demo_store) = mset [demo_comment2, demo_comment1]
      \<and> oldest_first demo_platform demo_comment1 demo_comment2
       = newest_first demo_platform demo_comment2 demo_comment1"
    unfolding scan by blast
  with scan t1 t2 res show ?thesis by blast
qed

section \<open>Comment records and their keys\<close>

text \<open>
  Claim C10. In every store that the handlers build from the empty store, with
  identifiers drawn by \<^verbatim>\<open>crypto.randomUUID()\<close>, a row whose key starts with \<open>comment:\<close> has
  a key of three segments \<open>comment\<close>, \<open><articleId>\<close>, \<open><commentId>\<close>, and its record carries the
  second segment in its articleId field and the third in its id field. Consequently a
  prefix scan for \<open>comment:<X>:\<close> yields only records whose articleId field is X. The
  record that one successful create-comment returns is the one stored under
  \<open>comment:<articleId>:<commentId>\<close>, with these two fields.
\<close>

theorem comment_records_match_keys:
  assumes "drawn_uuids ops"
  shows "(\<forall>r \<in> set (rows (run env ops)). prefix ''comment:'' (fst r) \<longrightarrow>
            (\<exists>aid cid. split_on (CHR '':'') (fst r) = [''comment'', aid, cid]
               \<and> obj_get (snd r) ''articleId'' = JStr aid \<and> obj_get (snd r) ''id'' = JStr cid))
       \<and> (\<forall>r \<in> set (kv_getByPrefix (run env ops) (''comment:'' @ X @ '':'')).
            obj_get (snd r) ''articleId'' = JStr X)
       \<and> (create_comment env req articleId commentId now s = (Inr comment, s') \<longrightarrow>
            kv_get s' (''comment:'' @ articleId @ '':'' @ commentId) = Some comment
            \<and> obj_get comment ''articleId'' = JStr articleId
            \<and> obj_get comment ''id'' = JStr commentId)"
proof (intro conjI ballI impI)
  have inv: "store_inv (run env ops)"
    using assms by (rule store_inv_run)
  {
    fix r assume r: "r \<in> set (rows (run env ops))" and p: "prefix ''comment:'' (fst r)"
    from inv r have "row_ok r" by (simp add: store_inv_def)
    from row_ok_comment_key [OF this p] obtain aid cid where
      k: "fst r = ''comment:'' @ aid @ '':'' @ cid" and a: "colon_free aid" and c: "colon_free cid"
      and f: "obj_get (snd r) ''articleId'' = JStr aid" "obj_get (snd r) ''id'' = JStr cid"
      by blast
    have "split_on (CHR '':'') (fst r) = [''comment'', aid, cid]"
      unfolding k using a c by (rule split_comment_key)
    with f show "\<exists>aid cid. split_on (CHR '':'') (fst r) = [''comment'', aid, cid]
               \<and> obj_get (snd r) ''articleId'' = JStr aid \<and> obj_get (snd r) ''id'' = JStr cid"
      by blast
  }
  {
    fix r assume "r \<in> set (kv_getByPrefix (run env ops) (''comment:'' @ X @ '':''))"
    then have r: "r \<in> set (rows (run env ops))" and p: "prefix (''comment:'' @ X @ '':'') (fst r)"
      by (simp_all add: kv_getByPrefix_def)
    from p have p0: "prefix ''comment:'' (fst r)"
      by (auto simp: prefix_def)
    from inv r have "row_ok r" by (simp add: store_inv_def)
    from row_ok_comment_key [OF this p0] obtain aid cid where
      k: "fst r = ''comment:'' @ aid @ '':'' @ cid" and a: "colon_free aid" and c: "colon_free cid"
      and f: "obj_get (snd r) ''articleId'' = JStr aid"
      by blast
    from p have "prefix (X @ [CHR '':'']) (aid @ CHR '':'' # cid)"
      unfolding k by simp
    with a c have "X = aid"
      unfolding colon_free_def by (intro prefix_segment)
    with f show "obj_get (snd r) ''articleId'' = JStr X" by simp
  }
  {
    assume "create_comment env req articleId commentId now s = (Inr comment, s')"
    then have "s' = kv_set s (''comment:'' @ articleId @ '':'' @ commentId) comment
        \<and> obj_get comment ''articleId'' = JStr articleId \<and> obj_get comment ''id'' = JStr commentId"
      by (auto simp: create_comment_def Let_def obj_get_Cons split: option.splits if_splits)
    then show "kv_get s' (''comment:'' @ articleId @ '':'' @ commentId) = Some comment"
      and "obj_get comment ''articleId'' = JStr articleId"
      and "obj_get comment ''id'' = JStr commentId"
      by (simp_all add: kv_get_kv_set)
  }
qed

theorem comment_records_match_keys_witness:
  "drawn_uuids demo_history
   \<and> kv_getByPrefix (run demo_platform demo_history) (''comment:'' @ aid1 @ '':'')
       = [(''comment:'' @ aid1 @ '':'' @ cid1, demo_comment1)]
   \<and> split_on (CHR '':'') (''comment:'' @ aid1 @ '':'' @ cid1) = [''comment'', aid1, cid1]
   \<and> obj_get demo_comment1 ''articleId'' = JStr aid1
   \<and> obj_get demo_comment1 ''id'' = JStr cid1
   \<and> create_comment demo_platform (anonymous_request demo_comment_body) aid1 cid1 4 demo_store
       = (Inr demo_comment1, kv_set demo_store (''comment:'' @ aid1 @ '':'' @ cid1) demo_comment1)
   \<and> kv_get (kv_set demo_store (''comment:'' @ aid1 @ '':'' @ cid1) demo_comment1)
         (''comment:'' @ aid1 @ '':'' @ cid1) = Some demo_comment1"
proof -
  have h: "drawn_uuids demo_history"
    by code_simp
  have scan: "kv_getByPrefix (run demo_platform demo_history) (''comment:'' @ aid1 @ '':'')
       = [(''comment:'' @ aid1 @ '':'' @ cid1, demo_comment1)]"
    by code_simp
  have seg: "split_on (CHR '':'') (''comment:'' @ aid1 @ '':'' @ cid1) = [''comment'', aid1, cid1]"
    by code_simp
  have cc: "create_comment demo_platform (anonymous_request demo_comment_body) aid1 cid1 4 demo_store
       = (Inr demo_comment1, kv_set demo_store (''comment:'' @ aid1 @ '':'' @ cid1) demo_comment1)"
    by code_simp
  note t = comment_records_match_keys [OF h, where env = demo_platform and X = aid1
      and req = "anonymous_request demo_comment_body" and articleId = aid1 and commentId = cid1
      and now = 4 and s = demo_store and comment = demo_comment1
      and s' = "kv_set demo_store (''comment:'' @ aid1 @ '':'' @ cid1) demo_comment1"]
  from t have a: "obj_get demo_comment1 ''articleId'' = JStr aid1"
    unfolding scan by simp
  from t cc have b: "kv_get (kv_set demo_store (''comment:'' @ aid1 @ '':'' @ cid1) demo_comment1)
         (''comment:'' @ aid1 @ '':'' @ cid1) = Some demo_comment1
      \<and> obj_get demo_comment1 ''id'' = JStr cid1"
    by blast
  from h scan seg cc a b show ?thesis by blast
qed

end
